theory Spec2Isabelle
  imports Complex_Main
begin

section \<open>Data model of interstellar/sprite.py\<close>

text \<open>
  The module is Python 2 (main.py uses \<^verbatim>\<open>xrange\<close> and \<^verbatim>\<open>__builtin__\<close>, and
  sprite.py has no \<^verbatim>\<open>from __future__ import division\<close>): the operator \<^verbatim>\<open>/\<close>
  on two ints is floor division, written \<open>div\<close> on \<open>int\<close> below. Pixel sizes of images and the
  ship's speed are ints. Positions are numbers that start as ints and become floats once a
  \<^verbatim>\<open>random.random()\<close> multiple is added; they are modelled as exact reals, and no
  statement below depends on rounding.
\<close>

datatype mechanism =
  ShieldMechanism | InstantKillMechanism | FullHealthMechanism | DoubleHealthMechanism

datatype sound = AttachmentSound | AttachmentDenySound | FireSound

text \<open>
  A \<^verbatim>\<open>resource.ResourceImage\<close>. The field \<open>iid\<close> stands for the identity of the Python
  object: two images are the same object exactly when they carry the same \<open>iid\<close>.
\<close>

record resource_image =
  iid :: nat
  img_x :: real
  img_y :: real
  img_width :: int
  img_height :: int

text \<open>
  An attachment (an instance of one of the classes of module mechanism). \<open>att_image\<close> is
  \<open>None\<close> when the instance has no attribute \<^verbatim>\<open>image\<close> or a false one.
\<close>

record attachment =
  mech :: mechanism
  att_image :: "resource_image option"

text \<open>
  Calls on the collaborators that are not part of sprite.py (the parent game, images, sounds,
  attachments), in the order in which the code makes them.
\<close>

datatype event =
    Explode real real
  | End
  | RemoveAsteroid nat bool
  | Unbind string
  | Play sound
  | Stop sound
  | Setup mechanism
  | CollidePoint nat nat
  | Render nat
  | DestroyImage nat
  | Deselect
  | Select
  | DestroyMusicArray
  | DestroyController

text \<open>
  The classes of sprites. \<open>MechanismAsteroid m\<close> is the subclass of
  \<^verbatim>\<open>MechanismAsteroid\<close> whose \<^verbatim>\<open>ATTACHMENT\<close> is the class \<open>m\<close> of module mechanism;
  \<^verbatim>\<open>MechanismAsteroid\<close> itself, whose \<^verbatim>\<open>ATTACHMENT\<close> is \<^verbatim>\<open>None\<close> and whose icon is
  the empty path, is a base class only.
\<close>

datatype sprite_class = SpriteBase | Ship | Asteroid | MechanismAsteroid mechanism

record sprite =
  sid :: nat
  cls :: sprite_class
  sprite_image :: resource_image
  attachment :: "attachment option"
  attachment_sound :: bool
  attachment_deny_sound :: bool
  health :: int
  damage :: int
  can_damage :: bool

text \<open>
  The truth value Python gives to a reference: \<^verbatim>\<open>None\<close> is false, an instance is true
  (the classes of module mechanism, which is not among the sources, are taken to leave the
  truth value of their instances alone).
\<close>

fun truthy :: "'a option \<Rightarrow> bool" where
  "truthy None = False"
| "truthy (Some v) = True"

section \<open>Sprite\<close>

text \<open>
  Modelled from the spec: the audio handle (module audio is not among the sources) has
  \<^verbatim>\<open>play()\<close>, \<^verbatim>\<open>stop()\<close> and a boolean \<^verbatim>\<open>playing\<close>; the fields
  \<open>attachment_sound\<close> and \<open>attachment_deny_sound\<close> hold that boolean, \<^verbatim>\<open>play()\<close>
  sets it. The attachment's \<^verbatim>\<open>setup()\<close> (module mechanism is not among the sources
  either) is recorded as the event \<open>Setup\<close>.

  The setter is called with a reference, which may be \<^verbatim>\<open>None\<close>. An offered \<^verbatim>\<open>None\<close>
  is the empty slot itself and is denied by the test \<^verbatim>\<open>attachment is self._attachment\<close>,
  so the branch for it after the test is never taken.
\<close>

definition attachment_setter :: "attachment option \<Rightarrow> sprite \<Rightarrow> sprite \<times> event list" where
  "attachment_setter offered s =
     (if truthy (attachment s) \<or> offered = attachment s then
        (s\<lparr>attachment_deny_sound := True\<rparr>,
         (if attachment_deny_sound s then [Stop AttachmentDenySound] else [])
           @ [Play AttachmentDenySound])
      else
        (case offered of
           None \<Rightarrow> (s, [])
         | Some a \<Rightarrow>
             (s\<lparr>attachment := Some a, attachment_sound := True\<rparr>,
              [Setup (mech a)]
                @ (if attachment_sound s then [Stop AttachmentSound] else [])
                @ [Play AttachmentSound])))"

text \<open>
  Modelled from the spec: \<^verbatim>\<open>self.ATTACHMENT(killer)\<close> instantiates the attachment type of
  the carrier (the constructors of module mechanism are not among the sources).
\<close>

definition new_attachment :: "mechanism \<Rightarrow> attachment" where
  "new_attachment m = \<lparr>mech = m, att_image = None\<rparr>"

text \<open>
  \<^verbatim>\<open>die\<close> is dispatched on the class of the sprite: \<^verbatim>\<open>Sprite.die\<close> does nothing,
  \<^verbatim>\<open>Ship.die\<close>, \<^verbatim>\<open>Asteroid.die\<close> and \<^verbatim>\<open>MechanismAsteroid.die\<close> call the parent.
  The result is the sprite, the killer (whose attachment a carrier sets) and the calls made.
\<close>

fun die :: "sprite \<Rightarrow> sprite \<Rightarrow> sprite \<times> sprite \<times> event list" where
  "die self killer =
     (case cls self of
        SpriteBase \<Rightarrow> (self, killer, [])
      | Ship \<Rightarrow>
          (self, killer,
           [Explode (img_x (sprite_image self)) (img_y (sprite_image self)), End])
      | Asteroid \<Rightarrow>
          (self, killer,
           [Explode (img_x (sprite_image self)) (img_y (sprite_image self)),
            RemoveAsteroid (sid self) True])
      | MechanismAsteroid m \<Rightarrow>
          (let (killer', evs) = attachment_setter (Some (new_attachment m)) killer
           in (self, killer', evs @ [RemoveAsteroid (sid self) False])))"

definition hurt :: "sprite \<Rightarrow> sprite \<Rightarrow> sprite \<times> sprite \<times> event list" where
  "hurt self attacker =
     (if \<not> can_damage self then (self, attacker, [])
      else if health self \<le> 0 then die self attacker
      else (self\<lparr>health := health self - damage attacker\<rparr>, attacker, []))"

section \<open>The game: the player's ship, its controller and the parent\<close>

text \<open>
  One record holds what \<^verbatim>\<open>ShipController\<close> reaches through its references: the player's
  sprite (\<^verbatim>\<open>self.sprite\<close>; \<^verbatim>\<open>self.image\<close> is the same object as the sprite's image),
  the parent's asteroids and display size, and the controller's own attributes. \<open>effects\<close> is
  the sequence of calls made on the collaborators so far. \<open>next_iid\<close> is the identity the next
  created image gets, \<open>draws\<close> counts the calls of \<^verbatim>\<open>random.random()\<close>, and
  \<open>bullet_width\<close>, \<open>bullet_height\<close> are the size of the image assets/bullet.png.
\<close>

record game =
  player :: sprite
  asteroids :: "sprite list"
  display_width :: int
  display_height :: int
  effects :: "event list"
  speed :: int
  projectile_speed :: int
  moving_forward :: bool
  moving_backward :: bool
  moving_right :: bool
  moving_left :: bool
  firing :: bool
  projectiles :: "resource_image list"
  maximum_projectiles :: int
  current_distance :: int
  fire_sound :: bool
  next_iid :: nat
  draws :: nat
  bullet_width :: int
  bullet_height :: int

text \<open>
  The two parameters of the functions below stand for code that is not in sprite.py:
  \<open>rnd n\<close> is the value of the \<open>n\<close>-th call of \<^verbatim>\<open>random.random()\<close>, and \<open>cp a b\<close> is
  the value of \<^verbatim>\<open>a.collide_point(b)\<close> of \<^verbatim>\<open>resource.ResourceImage\<close>.
\<close>

type_synonym collide = "resource_image \<Rightarrow> resource_image \<Rightarrow> bool"

subsection \<open>Calls on the parent\<close>

fun remove_sid :: "nat \<Rightarrow> sprite list \<Rightarrow> sprite list" where
  "remove_sid n [] = []"
| "remove_sid n (a # as) = (if sid a = n then as else a # remove_sid n as)"

text \<open>
  Modelled from the spec: \<^verbatim>\<open>remove_asteroid\<close> of the parent (game.py is not among the
  sources) removes the obstacle from the obstacle set; its second argument is recorded with
  the call. \<^verbatim>\<open>explode\<close> and \<^verbatim>\<open>end\<close> are recorded only.
\<close>

fun parent_call :: "event \<Rightarrow> game \<Rightarrow> game" where
  "parent_call (RemoveAsteroid n b) g =
     g\<lparr>asteroids := remove_sid n (asteroids g), effects := effects g @ [RemoveAsteroid n b]\<rparr>"
| "parent_call e g = g\<lparr>effects := effects g @ [e]\<rparr>"

fun parent_calls :: "event list \<Rightarrow> game \<Rightarrow> game" where
  "parent_calls [] g = g"
| "parent_calls (e # evs) g = parent_calls evs (parent_call e g)"

text \<open>A sprite of the asteroid list that was changed in place.\<close>

definition replace_sprite :: "sprite \<Rightarrow> sprite list \<Rightarrow> sprite list" where
  "replace_sprite a as = map (\<lambda>b. if sid b = sid a then a else b) as"

text \<open>\<^verbatim>\<open>asteroid.hurt(self.sprite)\<close> and \<^verbatim>\<open>self.sprite.hurt(asteroid)\<close>.\<close>

definition asteroid_hurt :: "sprite \<Rightarrow> game \<Rightarrow> game" where
  "asteroid_hurt a g =
     (let (a', killer', evs) = hurt a (player g)
      in parent_calls evs (g\<lparr>player := killer', asteroids := replace_sprite a' (asteroids g)\<rparr>))"

definition player_hurt :: "sprite \<Rightarrow> game \<Rightarrow> game" where
  "player_hurt a g =
     (let (player', a', evs) = hurt (player g) a
      in parent_calls evs (g\<lparr>player := player', asteroids := replace_sprite a' (asteroids g)\<rparr>))"

subsection \<open>ShipController\<close>

datatype key = Up | Down | Right | Left | Space

definition move_forward :: "bool \<Rightarrow> game \<Rightarrow> game" where
  "move_forward release g =
     (if \<not> release then g\<lparr>moving_forward := True\<rparr> else g\<lparr>moving_forward := False\<rparr>)"

definition move_backward :: "bool \<Rightarrow> game \<Rightarrow> game" where
  "move_backward release g =
     (if \<not> release then g\<lparr>moving_backward := True\<rparr> else g\<lparr>moving_backward := False\<rparr>)"

definition move_right :: "bool \<Rightarrow> game \<Rightarrow> game" where
  "move_right release g =
     (if \<not> release then g\<lparr>moving_right := True\<rparr> else g\<lparr>moving_right := False\<rparr>)"

definition move_left :: "bool \<Rightarrow> game \<Rightarrow> game" where
  "move_left release g =
     (if \<not> release then g\<lparr>moving_left := True\<rparr> else g\<lparr>moving_left := False\<rparr>)"

definition fire :: "bool \<Rightarrow> game \<Rightarrow> game" where
  "fire release g = (if \<not> release then g\<lparr>firing := True\<rparr> else g\<lparr>firing := False\<rparr>)"

text \<open>The bindings of \<^verbatim>\<open>setup\<close>: a key and whether the event is its release.\<close>

fun handle :: "key \<times> bool \<Rightarrow> game \<Rightarrow> game" where
  "handle (Up, release) g = move_forward release g"
| "handle (Down, release) g = move_backward release g"
| "handle (Right, release) g = move_right release g"
| "handle (Left, release) g = move_left release g"
| "handle (Space, release) g = fire release g"

text \<open>\<^verbatim>\<open>SpriteController.move\<close>: the image of the attachment follows the ship.\<close>

definition sprite_controller_move :: "game \<Rightarrow> game" where
  "sprite_controller_move g =
     (case attachment (player g) of
        None \<Rightarrow> g
      | Some a \<Rightarrow>
          (case att_image a of
             None \<Rightarrow> g
           | Some im \<Rightarrow>
               g\<lparr>player := (player g)\<lparr>attachment :=
                    Some (a\<lparr>att_image :=
                      Some (im\<lparr>img_x := img_x (sprite_image (player g)),
                               img_y := img_y (sprite_image (player g))\<rparr>)\<rparr>)\<rparr>\<rparr>))"

definition set_ship_x :: "real \<Rightarrow> game \<Rightarrow> game" where
  "set_ship_x v g = g\<lparr>player := (player g)\<lparr>sprite_image := (sprite_image (player g))\<lparr>img_x := v\<rparr>\<rparr>\<rparr>"

definition set_ship_y :: "real \<Rightarrow> game \<Rightarrow> game" where
  "set_ship_y v g = g\<lparr>player := (player g)\<lparr>sprite_image := (sprite_image (player g))\<lparr>img_y := v\<rparr>\<rparr>\<rparr>"

text \<open>The two \<^verbatim>\<open>if\<close>/\<^verbatim>\<open>elif\<close> statements of \<^verbatim>\<open>ShipController.move\<close> on the axes.\<close>

definition move_vertical :: "game \<Rightarrow> game" where
  "move_vertical g =
     (let im = sprite_image (player g) in
      if moving_forward g \<and> \<not> img_y im - of_int (img_height im div 2) \<le> 0 then
        set_ship_y (img_y im - of_int (speed g)) g
      else if moving_backward g
              \<and> \<not> img_y im + of_int (img_height im div 2) \<ge> of_int (display_height g) then
        (set_ship_y (img_y im + of_int (speed g div 2)) g)
          \<lparr>current_distance := current_distance g - speed g div 2\<rparr>
      else g)"

definition move_horizontal :: "game \<Rightarrow> game" where
  "move_horizontal g =
     (let im = sprite_image (player g) in
      if moving_right g
         \<and> \<not> img_x im + of_int (img_width im div 2) \<ge> of_int (display_width g) then
        set_ship_x (img_x im + of_int (speed g)) g
      else if moving_left g \<and> \<not> img_x im - of_int (img_width im div 2) \<le> 0 then
        set_ship_x (img_x im - of_int (speed g)) g
      else g)"

definition fire_projectile :: "game \<Rightarrow> game" where
  "fire_projectile g =
     (let g1 = (if fire_sound g then g\<lparr>effects := effects g @ [Deselect], fire_sound := False\<rparr>
                else g);
          g2 = g1\<lparr>fire_sound := True, effects := effects g1 @ [Select, Play FireSound]\<rparr>;
          im = sprite_image (player g2);
          bullet0 = \<lparr>iid = next_iid g2,
                     img_x = img_x im - of_int (img_width im div 2), img_y = img_y im,
                     img_width = bullet_width g2, img_height = bullet_height g2\<rparr>;
          bullet1 = \<lparr>iid = Suc (next_iid g2),
                     img_x = img_x im + of_int (img_width im div 2), img_y = img_y im,
                     img_width = bullet_width g2, img_height = bullet_height g2\<rparr>
      in g2\<lparr>next_iid := Suc (Suc (next_iid g2)),
            effects := effects g2 @ [Render (iid bullet0), Render (iid bullet1)],
            projectiles := (projectiles g2 @ [bullet0]) @ [bullet1]\<rparr>)"

text \<open>
  \<^verbatim>\<open>list.remove\<close> deletes the first element equal to its argument. Every caller passes an
  element read from the list, so the \<^verbatim>\<open>ValueError\<close> of a missing element cannot arise.
\<close>

definition destroy_projectile :: "resource_image \<Rightarrow> game \<Rightarrow> game" where
  "destroy_projectile projectile g =
     g\<lparr>effects := effects g @ [DestroyImage (iid projectile)],
       projectiles := remove1 projectile (projectiles g)\<rparr>"

fun check_projectile_collisions_loop ::
  "collide \<Rightarrow> resource_image \<Rightarrow> sprite list \<Rightarrow> game \<Rightarrow> bool \<times> game" where
  "check_projectile_collisions_loop cp projectile [] g = (False, g)"
| "check_projectile_collisions_loop cp projectile (asteroid # rest) g =
     (let g1 = g\<lparr>effects := effects g
                  @ [CollidePoint (iid projectile) (iid (sprite_image asteroid))]\<rparr>
      in if cp projectile (sprite_image asteroid) then (True, asteroid_hurt asteroid g1)
         else check_projectile_collisions_loop cp projectile rest g1)"

definition check_projectile_collisions :: "collide \<Rightarrow> resource_image \<Rightarrow> game \<Rightarrow> bool \<times> game" where
  "check_projectile_collisions cp projectile g =
     check_projectile_collisions_loop cp projectile (asteroids g) g"

fun check_player_collisions_loop :: "collide \<Rightarrow> sprite list \<Rightarrow> game \<Rightarrow> game" where
  "check_player_collisions_loop cp [] g = g"
| "check_player_collisions_loop cp (asteroid # rest) g =
     (let g1 = g\<lparr>effects := effects g
                  @ [CollidePoint (iid (sprite_image asteroid)) (iid (sprite_image (player g)))]\<rparr>
      in if cp (sprite_image asteroid) (sprite_image (player g)) then player_hurt asteroid g1
         else check_player_collisions_loop cp rest g1)"

definition check_player_collisions :: "collide \<Rightarrow> game \<Rightarrow> game" where
  "check_player_collisions cp g = check_player_collisions_loop cp (asteroids g) g"

text \<open>
  The body of the loop of \<^verbatim>\<open>update_projectiles\<close>, for the element the list iterator reads
  at index \<open>i\<close>.
\<close>

definition update_projectile :: "(nat \<Rightarrow> real) \<Rightarrow> collide \<Rightarrow> nat \<Rightarrow> game \<Rightarrow> game" where
  "update_projectile rnd cp i g =
     (let projectile = projectiles g ! i in
      if img_y projectile \<le> 0 then destroy_projectile projectile g
      else
        (let (hit, g1) = check_projectile_collisions cp projectile g in
         if hit then destroy_projectile projectile g1
         else g1\<lparr>projectiles := (projectiles g1)
                   [i := projectile\<lparr>img_y := img_y projectile
                          - rnd (draws g1) * of_int (projectile_speed g1) * 2\<rparr>],
                 draws := Suc (draws g1)\<rparr>))"

text \<open>
  The calls on the parent and on the sprites leave the controller's list of projectiles
  alone; the loops over that list terminate because of it.
\<close>

lemma projectiles_parent_call [simp]: "projectiles (parent_call e g) = projectiles g"
  by (cases e) simp_all

lemma projectiles_parent_calls [simp]: "projectiles (parent_calls evs g) = projectiles g"
  by (induction evs arbitrary: g) simp_all

lemma projectiles_asteroid_hurt [simp]: "projectiles (asteroid_hurt a g) = projectiles g"
  by (simp add: asteroid_hurt_def split: prod.splits)

lemma projectiles_check_projectile_collisions_loop [simp]:
  "projectiles (snd (check_projectile_collisions_loop cp p as g)) = projectiles g"
  by (induction as arbitrary: g) (simp_all add: Let_def)

lemma projectiles_check_projectile_collisions [simp]:
  "projectiles (snd (check_projectile_collisions cp p g)) = projectiles g"
  by (simp add: check_projectile_collisions_def)

lemma length_update_projectile:
  "length (projectiles (update_projectile rnd cp i g)) \<le> length (projectiles g)"
proof -
  obtain hit g1 where c: "check_projectile_collisions cp (projectiles g ! i) g = (hit, g1)"
    by (cases "check_projectile_collisions cp (projectiles g ! i) g")
  have "projectiles (snd (check_projectile_collisions cp (projectiles g ! i) g)) = projectiles g"
    by simp
  with c have "projectiles g1 = projectiles g"
    by simp
  with c show ?thesis
    by (simp add: update_projectile_def destroy_projectile_def Let_def length_remove1)
qed

text \<open>
  \<^verbatim>\<open>for projectile in self.projectiles\<close>: the list iterator keeps an index, reads the
  element at that index of the list as it is then, and stops when the index reaches the
  length of the list as it is then. \<open>update_projectiles_from\<close> is the loop from index \<open>i\<close> on.
\<close>

function update_projectiles_from :: "(nat \<Rightarrow> real) \<Rightarrow> collide \<Rightarrow> nat \<Rightarrow> game \<Rightarrow> game" where
  "update_projectiles_from rnd cp i g =
     (if i < length (projectiles g)
      then update_projectiles_from rnd cp (Suc i) (update_projectile rnd cp i g)
      else g)"
  by pat_completeness auto
termination
proof (relation "measure (\<lambda>(rnd, cp, i, g). length (projectiles g) - i)")
  show "wf (measure (\<lambda>(rnd, cp, i, g). length (projectiles g) - i))"
    by simp
next
  fix rnd :: "nat \<Rightarrow> real" and cp :: collide and i :: nat and g :: game
  assume "i < length (projectiles g)"
  then show "((rnd, cp, Suc i, update_projectile rnd cp i g), (rnd, cp, i, g))
               \<in> measure (\<lambda>(rnd, cp, i, g). length (projectiles g) - i)"
    using length_update_projectile [of rnd cp i g] by simp
qed

declare update_projectiles_from.simps [simp del]

definition update_projectiles :: "(nat \<Rightarrow> real) \<Rightarrow> collide \<Rightarrow> game \<Rightarrow> game" where
  "update_projectiles rnd cp g = update_projectiles_from rnd cp 0 g"

definition move :: "(nat \<Rightarrow> real) \<Rightarrow> collide \<Rightarrow> game \<Rightarrow> game" where
  "move rnd cp g =
     (let g1 = sprite_controller_move g;
          g2 = g1\<lparr>current_distance := current_distance g1 + speed g1\<rparr>;
          g3 = move_vertical g2;
          g4 = move_horizontal g3;
          g5 = (if firing g4 \<and> int (length (projectiles g4)) < maximum_projectiles g4
                then fire_projectile g4 else g4);
          g6 = update_projectiles rnd cp g5
      in check_player_collisions cp g6)"

text \<open>\<^verbatim>\<open>destroy_projectiles\<close>, the same kind of loop, from index \<open>i\<close> on.\<close>

function destroy_projectiles_from :: "nat \<Rightarrow> game \<Rightarrow> game" where
  "destroy_projectiles_from i g =
     (if i < length (projectiles g)
      then destroy_projectiles_from (Suc i) (destroy_projectile (projectiles g ! i) g)
      else g)"
  by pat_completeness auto
termination
  by (relation "measure (\<lambda>(i, g). length (projectiles g) - i)")
     (auto simp: destroy_projectile_def length_remove1)

declare destroy_projectiles_from.simps [simp del]

definition destroy_projectiles :: "game \<Rightarrow> game" where
  "destroy_projectiles g = destroy_projectiles_from 0 g"

text \<open>
  \<^verbatim>\<open>ShipController.destroy\<close>. \<^verbatim>\<open>SpriteController.destroy\<close> drops the controller's
  reference to the sprite and sets the speed to 0.
\<close>

definition destroy :: "game \<Rightarrow> game" where
  "destroy g =
     (let g1 = g\<lparr>effects := effects g @ [DestroyMusicArray], fire_sound := False\<rparr>;
          g2 = g1\<lparr>effects := effects g1 @
                 [Unbind ''Up'', Unbind ''KeyRelease-Up'', Unbind ''Down'',
                  Unbind ''KeyRelease-Down'', Unbind ''Right'', Unbind ''KeyRelease-Right'',
                  Unbind ''Left'', Unbind ''KeyRelease-Left'', Unbind ''space'',
                  Unbind ''KeyRelease-space'']\<rparr>;
          g3 = g2\<lparr>effects := effects g2 @ [DestroyController]\<rparr>;
          g4 = destroy_projectiles g3
      in g4\<lparr>speed := 0\<rparr>)"

subsection \<open>Frames\<close>

text \<open>
  A frame of the ship: the key events that arrived since the last frame are handled, then
  \<^verbatim>\<open>Sprite.update\<close> calls \<^verbatim>\<open>move\<close> through \<^verbatim>\<open>SpriteController.update\<close>. Each frame has its
  own collision test, since the asteroids have moved in between. The \<^verbatim>\<open>update\<close> of the
  attachment, which \<^verbatim>\<open>Sprite.update\<close> calls next, belongs to module mechanism and is left
  out.
\<close>

fun handle_all :: "(key \<times> bool) list \<Rightarrow> game \<Rightarrow> game" where
  "handle_all [] g = g"
| "handle_all (k # ks) g = handle_all ks (handle k g)"

definition frame :: "(nat \<Rightarrow> real) \<Rightarrow> (key \<times> bool) list \<times> collide \<Rightarrow> game \<Rightarrow> game" where
  "frame rnd f g = move rnd (snd f) (handle_all (fst f) g)"

fun frames :: "(nat \<Rightarrow> real) \<Rightarrow> ((key \<times> bool) list \<times> collide) list \<Rightarrow> game \<Rightarrow> game" where
  "frames rnd [] g = g"
| "frames rnd (f # fs) g = frames rnd fs (frame rnd f g)"

subsection \<open>Constructors\<close>

text \<open>
  \<^verbatim>\<open>Sprite.__init__\<close> followed by the assignments of \<^verbatim>\<open>Ship.__init__\<close>,
  \<^verbatim>\<open>Asteroid.__init__\<close> and \<^verbatim>\<open>MechanismAsteroid.__init__\<close>; the image is created by the
  caller. The ship's image is placed at half the window's width and at the window's height
  less the image's height.
\<close>

definition new_sprite :: "nat \<Rightarrow> sprite_class \<Rightarrow> resource_image \<Rightarrow> sprite" where
  "new_sprite n c im =
     \<lparr>sid = n, cls = c, sprite_image = im, attachment = None, attachment_sound = False,
      attachment_deny_sound = False, health = 0, damage = 0, can_damage = True\<rparr>"

definition new_ship :: "nat \<Rightarrow> nat \<Rightarrow> int \<Rightarrow> int \<Rightarrow> int \<Rightarrow> int \<Rightarrow> sprite" where
  "new_ship n i winfo_width winfo_height w h =
     (new_sprite n Ship
        \<lparr>iid = i, img_x = of_int (winfo_width div 2), img_y = of_int (winfo_height - h),
         img_width = w, img_height = h\<rparr>)
       \<lparr>health := 100, damage := 5\<rparr>"

definition new_asteroid :: "nat \<Rightarrow> resource_image \<Rightarrow> sprite" where
  "new_asteroid n im = (new_sprite n Asteroid im)\<lparr>health := 10, damage := 1\<rparr>"

definition new_mechanism_asteroid :: "nat \<Rightarrow> mechanism \<Rightarrow> resource_image \<Rightarrow> sprite" where
  "new_mechanism_asteroid n m im =
     (new_sprite n (MechanismAsteroid m) im)\<lparr>health := 0, damage := 0\<rparr>"

text \<open>
  \<^verbatim>\<open>ShipController.__init__\<close>, for a ship, the parent's asteroids and display size, and the
  size of the bullet image.
\<close>

definition new_game :: "sprite \<Rightarrow> sprite list \<Rightarrow> int \<Rightarrow> int \<Rightarrow> nat \<Rightarrow> int \<Rightarrow> int \<Rightarrow> game" where
  "new_game ship as dw dh i bw bh =
     \<lparr>player = ship, asteroids = as, display_width = dw, display_height = dh, effects = [],
      speed = 15, projectile_speed = 20, moving_forward = False, moving_backward = False,
      moving_right = False, moving_left = False, firing = False, projectiles = [],
      maximum_projectiles = 15, current_distance = 0, fire_sound = False, next_iid = i,
      draws = 0, bullet_width = bw, bullet_height = bh\<rparr>"

text \<open>
  \<open>unmoved g g'\<close>: the ship's image, the distance counter and the constants of the controller
  and the display are the same in \<open>g\<close> and \<open>g'\<close>.
\<close>

definition unmoved :: "game \<Rightarrow> game \<Rightarrow> bool" where
  "unmoved g g' \<longleftrightarrow>
     sprite_image (player g') = sprite_image (player g)
     \<and> current_distance g' = current_distance g
     \<and> speed g' = speed g
     \<and> display_width g' = display_width g
     \<and> display_height g' = display_height g
     \<and> maximum_projectiles g' = maximum_projectiles g"

text \<open>
  The bounding edges of the ship as \<^verbatim>\<open>ShipController.move\<close> computes them:
  \<^verbatim>\<open>self.image.x - self.image.width / 2\<close>, \<^verbatim>\<open>self.image.x + self.image.width / 2\<close>,
  \<^verbatim>\<open>self.image.y - self.image.height / 2\<close> and \<^verbatim>\<open>self.image.y + self.image.height / 2\<close>.
\<close>

definition left_edge :: "game \<Rightarrow> real" where
  "left_edge g =
     img_x (sprite_image (player g)) - of_int (img_width (sprite_image (player g)) div 2)"

definition right_edge :: "game \<Rightarrow> real" where
  "right_edge g =
     img_x (sprite_image (player g)) + of_int (img_width (sprite_image (player g)) div 2)"

definition top_edge :: "game \<Rightarrow> real" where
  "top_edge g =
     img_y (sprite_image (player g)) - of_int (img_height (sprite_image (player g)) div 2)"

definition bottom_edge :: "game \<Rightarrow> real" where
  "bottom_edge g =
     img_y (sprite_image (player g)) + of_int (img_height (sprite_image (player g)) div 2)"

subsection \<open>Sample inputs\<close>

text \<open>
  A new game in a window and display of 800 by 601 pixels, with a ship image of 40 by 40
  pixels, a bullet image of 4 by 10 pixels and no asteroid; a collision test that is always
  false and one that is always true; a random generator that always returns 0.25.
\<close>

definition sample_game :: game where
  "sample_game = new_game (new_ship 0 0 800 601 40 40) [] 800 601 1 4 10"

definition no_collision :: collide where
  "no_collision a b = False"

definition all_collide :: collide where
  "all_collide a b = True"

definition quarter :: "nat \<Rightarrow> real" where
  "quarter n = 1 / 4"

text \<open>
  \<open>overshoot_bounded g\<close>: no bounding edge of the ship is a full step or more outside the
  display: a step is the speed, and \<^verbatim>\<open>speed / 2\<close> downwards.
\<close>

definition overshoot_bounded :: "game \<Rightarrow> bool" where
  "overshoot_bounded g \<longleftrightarrow>
     0 \<le> speed g
     \<and> - of_int (speed g) < left_edge g
     \<and> right_edge g < of_int (display_width g) + of_int (speed g)
     \<and> - of_int (speed g) < top_edge g
     \<and> bottom_edge g < of_int (display_height g) + of_int (speed g div 2)"

fun is_collide_point :: "event \<Rightarrow> bool" where
  "is_collide_point (CollidePoint m n) = True"
| "is_collide_point e = False"

text \<open>
  The sample game with a carrier of the shield in it, and with a plain asteroid in it and
  the ship at health 1.
\<close>

definition sample_carrier :: sprite where
  "sample_carrier =
     new_mechanism_asteroid 1 ShieldMechanism
       \<lparr>iid = 1, img_x = 400, img_y = 561, img_width = 30, img_height = 30\<rparr>"


definition sample_bullet :: resource_image where
  "sample_bullet = \<lparr>iid = 2, img_x = 400, img_y = 561, img_width = 4, img_height = 10\<rparr>"

definition carrier_game :: game where
  "carrier_game = new_game (new_ship 0 0 800 601 40 40) [sample_carrier] 800 601 3 4 10"


text \<open>
  \<open>touches n e\<close>: the call \<open>e\<close> is made on the projectile of identity \<open>n\<close>: it is the
  collision test of that projectile against an asteroid, or its \<^verbatim>\<open>destroy()\<close>.
  \<open>new_effects g g'\<close> are the calls made between \<open>g\<close> and \<open>g'\<close>.
\<close>

fun touches :: "nat \<Rightarrow> event \<Rightarrow> bool" where
  "touches n (CollidePoint m a) = (m = n)"
| "touches n (DestroyImage m) = (m = n)"
| "touches n e = False"

definition new_effects :: "game \<Rightarrow> game \<Rightarrow> event list" where
  "new_effects g g' = drop (length (effects g)) (effects g')"

text \<open>
  The ship at the top of the display (its top edge is 14 pixels above it) after one frame
  with the fire key pressed: two projectiles are in flight, both above the top bound.
\<close>

definition top_game :: game where
  "top_game = frame quarter ([(Space, False)], no_collision) (set_ship_y 6 sample_game)"

text \<open>
  \<open>fresh g\<close>: the projectiles in flight are distinct objects, created before the next image
  is.
\<close>

definition fresh :: "game \<Rightarrow> bool" where
  "fresh g \<longleftrightarrow>
     distinct (map iid (projectiles g)) \<and> list_all (\<lambda>p. iid p < next_iid g) (projectiles g)"

section \<open>Sprite.hurt and the attachment setter\<close>

declare die.simps [simp del]

lemma health_die [simp]: "health (fst (die s a)) = health s"
  by (simp add: die.simps split: sprite_class.splits prod.splits)

text \<open>
  C3. For a sprite with \<^verbatim>\<open>can_damage\<close> true, \<^verbatim>\<open>hurt(attacker)\<close> called while the health is at
  most 0 is the death transition \<^verbatim>\<open>die(attacker)\<close> and leaves the health as it was: the damage
  of the attacker is not subtracted. Called while the health is positive, it subtracts the
  attacker's damage from the health, changes nothing else and makes no call: the death
  transition is not invoked.
\<close>

theorem hurt_dies_or_subtracts:
  assumes "can_damage s"
  shows "hurt s a =
           (if health s \<le> 0 then die s a
            else (s\<lparr>health := health s - damage a\<rparr>, a, []))
         \<and> (health s \<le> 0 \<longrightarrow> health (fst (hurt s a)) = health s)"
  using assms by (simp add: hurt_def)

theorem hurt_dies_or_subtracts_witness:
  "can_damage ((new_ship 0 0 800 600 40 40)\<lparr>health := 0\<rparr>)
   \<and> hurt ((new_ship 0 0 800 600 40 40)\<lparr>health := 0\<rparr>)
        (new_asteroid 1 \<lparr>iid = 1, img_x = 400, img_y = 550, img_width = 30, img_height = 30\<rparr>)
      = ((new_ship 0 0 800 600 40 40)\<lparr>health := 0\<rparr>,
         new_asteroid 1 \<lparr>iid = 1, img_x = 400, img_y = 550, img_width = 30, img_height = 30\<rparr>,
         [Explode 400 560, End])
   \<and> can_damage (new_ship 0 0 800 600 40 40)
   \<and> hurt (new_ship 0 0 800 600 40 40)
        (new_asteroid 1 \<lparr>iid = 1, img_x = 400, img_y = 550, img_width = 30, img_height = 30\<rparr>)
      = ((new_ship 0 0 800 600 40 40)\<lparr>health := 99\<rparr>,
         new_asteroid 1 \<lparr>iid = 1, img_x = 400, img_y = 550, img_width = 30, img_height = 30\<rparr>,
         [])"
proof -
  let ?a = "new_asteroid 1 \<lparr>iid = 1, img_x = 400, img_y = 550, img_width = 30, img_height = 30\<rparr>"
  let ?s = "new_ship 0 0 800 600 40 40"
  have c0: "can_damage (?s\<lparr>health := 0\<rparr>)" and c1: "can_damage ?s"
    by (simp_all add: new_ship_def new_sprite_def)
  show ?thesis
    using hurt_dies_or_subtracts [OF c0, of ?a] hurt_dies_or_subtracts [OF c1, of ?a]
    by (simp add: die.simps new_ship_def new_sprite_def new_asteroid_def)
qed

text \<open>
  C5. Offering an attachment to a sprite that holds one is rejected, whatever is offered: the
  deny sound is played, after being stopped if it was playing, the sprite is otherwise
  unchanged, so that it keeps its attachment, and no setup routine runs. Offering an
  attachment to a sprite that holds none makes it the sprite's attachment, runs its setup
  routine and plays the attachment sound, after stopping it if it was playing.
\<close>

theorem attachment_setter_rejects_or_accepts:
  "(truthy (attachment s) \<longrightarrow>
      attachment_setter offered s =
        (s\<lparr>attachment_deny_sound := True\<rparr>,
         if attachment_deny_sound s then [Stop AttachmentDenySound, Play AttachmentDenySound]
         else [Play AttachmentDenySound])
      \<and> attachment (fst (attachment_setter offered s)) = attachment s
      \<and> (\<forall>m. Setup m \<notin> set (snd (attachment_setter offered s))))
   \<and> (attachment s = None \<longrightarrow>
      attachment_setter (Some a) s =
        (s\<lparr>attachment := Some a, attachment_sound := True\<rparr>,
         if attachment_sound s then [Setup (mech a), Stop AttachmentSound, Play AttachmentSound]
         else [Setup (mech a), Play AttachmentSound]))"
  by (simp add: attachment_setter_def)

theorem attachment_setter_rejects_or_accepts_witness:
  "truthy (attachment ((new_ship 0 0 800 600 40 40)
      \<lparr>attachment := Some (new_attachment ShieldMechanism), attachment_deny_sound := True\<rparr>))
   \<and> attachment_setter (Some (new_attachment FullHealthMechanism))
        ((new_ship 0 0 800 600 40 40)
          \<lparr>attachment := Some (new_attachment ShieldMechanism), attachment_deny_sound := True\<rparr>)
      = ((new_ship 0 0 800 600 40 40)
          \<lparr>attachment := Some (new_attachment ShieldMechanism), attachment_deny_sound := True\<rparr>,
         [Stop AttachmentDenySound, Play AttachmentDenySound])
   \<and> attachment (new_ship 0 0 800 600 40 40) = None
   \<and> attachment_setter (Some (new_attachment FullHealthMechanism)) (new_ship 0 0 800 600 40 40)
      = ((new_ship 0 0 800 600 40 40)
          \<lparr>attachment := Some (new_attachment FullHealthMechanism), attachment_sound := True\<rparr>,
         [Setup FullHealthMechanism, Play AttachmentSound])"
  using attachment_setter_rejects_or_accepts
          [of "(new_ship 0 0 800 600 40 40)
                 \<lparr>attachment := Some (new_attachment ShieldMechanism),
                   attachment_deny_sound := True\<rparr>"
              "Some (new_attachment FullHealthMechanism)"]
        attachment_setter_rejects_or_accepts
          [of "new_ship 0 0 800 600 40 40" _ "new_attachment FullHealthMechanism"]
  by (simp add: new_ship_def new_sprite_def new_attachment_def)

section \<open>What the parts of a frame leave alone\<close>

lemma unmoved_refl [simp]: "unmoved g g"
  by (simp add: unmoved_def)

lemma unmoved_trans: "unmoved g g1 \<Longrightarrow> unmoved g1 g2 \<Longrightarrow> unmoved g g2"
  by (simp add: unmoved_def)

lemma sprite_image_attachment_setter [simp]:
  "sprite_image (fst (attachment_setter offered s)) = sprite_image s"
  by (simp add: attachment_setter_def split: option.splits)

lemma sprite_image_die [simp]:
  "sprite_image (fst (die s a)) = sprite_image s"
  "sprite_image (fst (snd (die s a))) = sprite_image a"
  by (simp_all add: die.simps split: sprite_class.splits prod.splits)
     (metis fst_conv sprite_image_attachment_setter)

lemma sprite_image_hurt [simp]:
  "sprite_image (fst (hurt s a)) = sprite_image s"
  "sprite_image (fst (snd (hurt s a))) = sprite_image a"
  by (simp_all add: hurt_def)

lemma unmoved_parent_call: "unmoved g (parent_call e g)"
  by (cases e) (simp_all add: unmoved_def)

lemma unmoved_parent_calls: "unmoved g (parent_calls evs g)"
proof (induction evs arbitrary: g)
  case Nil
  show ?case by simp
next
  case (Cons e evs)
  show ?case
    using unmoved_trans [OF unmoved_parent_call Cons.IH] by simp
qed

lemma unmoved_asteroid_hurt: "unmoved g (asteroid_hurt a g)"
proof -
  obtain a' k' evs where h: "hurt a (player g) = (a', k', evs)"
    by (cases "hurt a (player g)")
  have "sprite_image (fst (snd (hurt a (player g)))) = sprite_image (player g)"
    by simp
  with h have "sprite_image k' = sprite_image (player g)"
    by simp
  then have "unmoved g (g\<lparr>player := k', asteroids := replace_sprite a' (asteroids g)\<rparr>)"
    by (simp add: unmoved_def)
  from unmoved_trans [OF this unmoved_parent_calls] h show ?thesis
    by (simp add: asteroid_hurt_def)
qed

lemma unmoved_player_hurt: "unmoved g (player_hurt a g)"
proof -
  obtain p' a' evs where h: "hurt (player g) a = (p', a', evs)"
    by (cases "hurt (player g) a")
  have "sprite_image (fst (hurt (player g) a)) = sprite_image (player g)"
    by simp
  with h have "sprite_image p' = sprite_image (player g)"
    by simp
  then have "unmoved g (g\<lparr>player := p', asteroids := replace_sprite a' (asteroids g)\<rparr>)"
    by (simp add: unmoved_def)
  from unmoved_trans [OF this unmoved_parent_calls] h show ?thesis
    by (simp add: player_hurt_def)
qed

lemma unmoved_effects [simp]: "unmoved g (g\<lparr>effects := evs\<rparr>)"
  by (simp add: unmoved_def)

lemma unmoved_check_projectile_collisions_loop:
  "unmoved g (snd (check_projectile_collisions_loop cp p as g))"
proof (induction as arbitrary: g)
  case Nil
  show ?case by simp
next
  case (Cons a as)
  let ?g1 = "g\<lparr>effects := effects g @ [CollidePoint (iid p) (iid (sprite_image a))]\<rparr>"
  show ?case
  proof (cases "cp p (sprite_image a)")
    case True
    have "unmoved g ?g1"
      by simp
    moreover have "unmoved ?g1 (asteroid_hurt a ?g1)"
      by (rule unmoved_asteroid_hurt)
    ultimately have "unmoved g (asteroid_hurt a ?g1)"
      by (rule unmoved_trans)
    with True show ?thesis
      by (simp add: Let_def)
  next
    case False
    have "unmoved g ?g1"
      by simp
    moreover have "unmoved ?g1 (snd (check_projectile_collisions_loop cp p as ?g1))"
      by (rule Cons.IH)
    ultimately have "unmoved g (snd (check_projectile_collisions_loop cp p as ?g1))"
      by (rule unmoved_trans)
    with False show ?thesis
      by (simp add: Let_def)
  qed
qed

lemma unmoved_check_player_collisions: "unmoved g (check_player_collisions cp g)"
proof -
  have "unmoved g (check_player_collisions_loop cp as g)" for as
  proof (induction as arbitrary: g)
    case Nil
    show ?case by simp
  next
    case (Cons a as)
    let ?g1 = "g\<lparr>effects := effects g
                 @ [CollidePoint (iid (sprite_image a)) (iid (sprite_image (player g)))]\<rparr>"
    have u: "unmoved g ?g1"
      by simp
    show ?case
    proof (cases "cp (sprite_image a) (sprite_image (player g))")
      case True
      have "unmoved ?g1 (player_hurt a ?g1)"
        by (rule unmoved_player_hurt)
      with u have "unmoved g (player_hurt a ?g1)"
        by (rule unmoved_trans)
      with True show ?thesis
        by (simp add: Let_def)
    next
      case False
      have "unmoved ?g1 (check_player_collisions_loop cp as ?g1)"
        by (rule Cons.IH)
      with u have "unmoved g (check_player_collisions_loop cp as ?g1)"
        by (rule unmoved_trans)
      with False show ?thesis
        by (simp add: Let_def)
    qed
  qed
  then show ?thesis
    by (simp add: check_player_collisions_def)
qed

lemma unmoved_destroy_projectile: "unmoved g (destroy_projectile p g)"
  by (simp add: unmoved_def destroy_projectile_def)

lemma unmoved_update_projectile: "unmoved g (update_projectile rnd cp i g)"
proof -
  let ?p = "projectiles g ! i"
  obtain hit g1 where c: "check_projectile_collisions cp ?p g = (hit, g1)"
    by (cases "check_projectile_collisions cp ?p g")
  have "unmoved g (snd (check_projectile_collisions cp ?p g))"
    by (simp add: check_projectile_collisions_def unmoved_check_projectile_collisions_loop)
  with c have u: "unmoved g g1"
    by simp
  have "unmoved g1 (destroy_projectile ?p g1)"
    by (rule unmoved_destroy_projectile)
  with u have d: "unmoved g (destroy_projectile ?p g1)"
    by (rule unmoved_trans)
  from u have m: "unmoved g (g1\<lparr>projectiles := ps, draws := n\<rparr>)" for ps n
    by (simp add: unmoved_def)
  show ?thesis
    using c d m unmoved_destroy_projectile [of g ?p]
    by (simp add: update_projectile_def Let_def)
qed

lemma unmoved_update_projectiles_from: "unmoved g (update_projectiles_from rnd cp i g)"
proof (induction rnd cp i g rule: update_projectiles_from.induct)
  case (1 rnd cp i g)
  show ?case
  proof (cases "i < length (projectiles g)")
    case True
    from unmoved_trans [OF unmoved_update_projectile "1.IH" [OF True]] True show ?thesis
      by (simp add: update_projectiles_from.simps [of rnd cp i g])
  next
    case False
    then show ?thesis
      by (simp add: update_projectiles_from.simps [of rnd cp i g])
  qed
qed

lemma unmoved_fire_projectile: "unmoved g (fire_projectile g)"
  by (simp add: unmoved_def fire_projectile_def Let_def)

lemma unmoved_move:
  "unmoved (move_horizontal (move_vertical
              ((sprite_controller_move g)
                 \<lparr>current_distance := current_distance (sprite_controller_move g)
                    + speed (sprite_controller_move g)\<rparr>)))
           (move rnd cp g)"
proof -
  let ?g4 = "move_horizontal (move_vertical
              ((sprite_controller_move g)
                 \<lparr>current_distance := current_distance (sprite_controller_move g)
                    + speed (sprite_controller_move g)\<rparr>))"
  let ?g5 = "if firing ?g4 \<and> int (length (projectiles ?g4)) < maximum_projectiles ?g4
             then fire_projectile ?g4 else ?g4"
  have "unmoved ?g4 ?g5"
    by (simp add: unmoved_fire_projectile)
  moreover have "unmoved ?g5 (update_projectiles rnd cp ?g5)"
    unfolding update_projectiles_def by (rule unmoved_update_projectiles_from)
  ultimately have "unmoved ?g4 (update_projectiles rnd cp ?g5)"
    by (rule unmoved_trans)
  moreover have "unmoved (update_projectiles rnd cp ?g5)
                   (check_player_collisions cp (update_projectiles rnd cp ?g5))"
    by (rule unmoved_check_player_collisions)
  ultimately show ?thesis
    unfolding move_def Let_def by (rule unmoved_trans)
qed

section \<open>Movement of the ship\<close>

lemma ship_sprite_controller_move [simp]:
  "sprite_image (player (sprite_controller_move g)) = sprite_image (player g)"
  "current_distance (sprite_controller_move g) = current_distance g"
  "speed (sprite_controller_move g) = speed g"
  "display_width (sprite_controller_move g) = display_width g"
  "display_height (sprite_controller_move g) = display_height g"
  "moving_forward (sprite_controller_move g) = moving_forward g"
  "moving_backward (sprite_controller_move g) = moving_backward g"
  "moving_right (sprite_controller_move g) = moving_right g"
  "moving_left (sprite_controller_move g) = moving_left g"
  by (simp_all add: sprite_controller_move_def split: option.splits)

lemma current_distance_move_horizontal [simp]:
  "current_distance (move_horizontal g) = current_distance g"
  by (simp add: move_horizontal_def set_ship_x_def Let_def)

lemma img_y_move_horizontal [simp]:
  "img_y (sprite_image (player (move_horizontal g))) = img_y (sprite_image (player g))"
  by (simp add: move_horizontal_def set_ship_x_def Let_def)

text \<open>
  C9, as amended. Every call of \<^verbatim>\<open>move\<close> adds the speed to \<^verbatim>\<open>current_distance\<close>, whether
  the ship moves or not. In a call in which the ship moves forward (up by the speed) nothing
  else happens to the counter; in a call in which it moves backward (down by \<^verbatim>\<open>speed / 2\<close>,
  an integer division) \<^verbatim>\<open>speed / 2\<close> is subtracted again; in a call in which it does not move
  on this axis the counter still grows by the speed.
\<close>

theorem move_current_distance:
  "current_distance (move rnd cp g) =
     (if moving_forward g \<and> 0 < top_edge g then current_distance g + speed g
      else if moving_backward g \<and> bottom_edge g < of_int (display_height g)
      then current_distance g + speed g - speed g div 2
      else current_distance g + speed g)
   \<and> img_y (sprite_image (player (move rnd cp g))) =
     (if moving_forward g \<and> 0 < top_edge g
      then img_y (sprite_image (player g)) - of_int (speed g)
      else if moving_backward g \<and> bottom_edge g < of_int (display_height g)
      then img_y (sprite_image (player g)) + of_int (speed g div 2)
      else img_y (sprite_image (player g)))"
proof -
  let ?g2 = "(sprite_controller_move g)
               \<lparr>current_distance := current_distance (sprite_controller_move g)
                  + speed (sprite_controller_move g)\<rparr>"
  have "unmoved (move_horizontal (move_vertical ?g2)) (move rnd cp g)"
    by (rule unmoved_move)
  then have "current_distance (move rnd cp g) = current_distance (move_vertical ?g2)"
    and "img_y (sprite_image (player (move rnd cp g)))
         = img_y (sprite_image (player (move_vertical ?g2)))"
    by (simp_all add: unmoved_def)
  then show ?thesis
    by (simp add: move_vertical_def set_ship_y_def top_edge_def bottom_edge_def Let_def
                  not_le)
qed

text \<open>
  C9 as stated fails: in a frame of the sample game in which no key is held the ship does not
  move on the forward/back axis, and \<^verbatim>\<open>current_distance\<close> changes from 0 to 15.
\<close>

theorem move_current_distance_counterexample:
  "\<not> moving_forward sample_game \<and> \<not> moving_backward sample_game
   \<and> img_y (sprite_image (player (move quarter no_collision sample_game)))
     = img_y (sprite_image (player sample_game))
   \<and> current_distance sample_game = 0
   \<and> current_distance (move quarter no_collision sample_game) = 15"
  by code_simp

lemma ship_handle [simp]:
  "sprite_image (player (handle k g)) = sprite_image (player g)"
  "speed (handle k g) = speed g"
  "display_width (handle k g) = display_width g"
  "display_height (handle k g) = display_height g"
proof -
  obtain c release where k: "k = (c, release)"
    by (cases k)
  show "sprite_image (player (handle k g)) = sprite_image (player g)"
    "speed (handle k g) = speed g"
    "display_width (handle k g) = display_width g"
    "display_height (handle k g) = display_height g"
    unfolding k
    by (cases c;
        simp add: move_forward_def move_backward_def move_right_def move_left_def fire_def)+
qed

lemma ship_handle_all [simp]:
  "sprite_image (player (handle_all ks g)) = sprite_image (player g)"
  "speed (handle_all ks g) = speed g"
  "display_width (handle_all ks g) = display_width g"
  "display_height (handle_all ks g) = display_height g"
  by (induction ks arbitrary: g) simp_all

lemma consts_move_vertical [simp]:
  "speed (move_vertical g) = speed g"
  "display_width (move_vertical g) = display_width g"
  "display_height (move_vertical g) = display_height g"
  "img_x (sprite_image (player (move_vertical g))) = img_x (sprite_image (player g))"
  "img_width (sprite_image (player (move_vertical g))) = img_width (sprite_image (player g))"
  "img_height (sprite_image (player (move_vertical g))) = img_height (sprite_image (player g))"
  by (simp_all add: move_vertical_def set_ship_y_def Let_def)

lemma consts_move_horizontal [simp]:
  "speed (move_horizontal g) = speed g"
  "display_width (move_horizontal g) = display_width g"
  "display_height (move_horizontal g) = display_height g"
  "img_width (sprite_image (player (move_horizontal g))) = img_width (sprite_image (player g))"
  "img_height (sprite_image (player (move_horizontal g))) = img_height (sprite_image (player g))"
  by (simp_all add: move_horizontal_def set_ship_x_def Let_def)

lemma consts_move [simp]:
  "speed (move rnd cp g) = speed g"
  "display_width (move rnd cp g) = display_width g"
  "display_height (move rnd cp g) = display_height g"
  using unmoved_move [of g rnd cp] by (simp_all add: unmoved_def)

lemma consts_frames [simp]:
  "speed (frames rnd fs g) = speed g"
  "display_width (frames rnd fs g) = display_width g"
  "display_height (frames rnd fs g) = display_height g"
  by (induction fs arbitrary: g) (simp_all add: frame_def)

lemma vertical_step:
  assumes "0 \<le> speed g"
    and "- of_int (speed g) < top_edge g"
    and "bottom_edge g < of_int (display_height g) + of_int (speed g div 2)"
  shows "- of_int (speed g) < top_edge (move_vertical g)
         \<and> bottom_edge (move_vertical g) < of_int (display_height g) + of_int (speed g div 2)"
proof -
  define half :: real where "half = of_int (speed g div 2)"
  from assms(1) have "0 \<le> speed g div 2"
    by simp
  then have h: "0 \<le> half"
    by (simp add: half_def)
  have e: "real_of_int (speed g div 2) = half"
    by (simp add: half_def)
  from assms(1) have s: "(0::real) \<le> of_int (speed g)"
    by simp
  show ?thesis
    using assms(2,3) h s
    by (simp add: move_vertical_def set_ship_y_def top_edge_def bottom_edge_def Let_def not_le
                  e)
qed

lemma horizontal_step:
  assumes "0 \<le> speed g"
    and "- of_int (speed g) < left_edge g"
    and "right_edge g < of_int (display_width g) + of_int (speed g)"
  shows "- of_int (speed g) < left_edge (move_horizontal g)
         \<and> right_edge (move_horizontal g) < of_int (display_width g) + of_int (speed g)"
proof -
  from assms(1) have s: "(0::real) \<le> of_int (speed g)"
    by simp
  show ?thesis
    using assms(2,3) s
    by (simp add: move_horizontal_def set_ship_x_def left_edge_def right_edge_def Let_def
                  not_le)
qed

lemma overshoot_bounded_handle_all:
  "overshoot_bounded g \<Longrightarrow> overshoot_bounded (handle_all ks g)"
  by (simp add: overshoot_bounded_def left_edge_def right_edge_def top_edge_def
                bottom_edge_def)

lemma overshoot_bounded_axes:
  assumes "overshoot_bounded g"
  shows "overshoot_bounded (move_horizontal (move_vertical g))"
proof -
  from assms have v: "- of_int (speed g) < top_edge (move_vertical g)
      \<and> bottom_edge (move_vertical g) < of_int (display_height g) + of_int (speed g div 2)"
    by (intro vertical_step) (simp_all add: overshoot_bounded_def)
  from assms have "- of_int (speed (move_vertical g)) < left_edge (move_vertical g)"
    and "right_edge (move_vertical g)
         < of_int (display_width (move_vertical g)) + of_int (speed (move_vertical g))"
    by (simp_all add: overshoot_bounded_def left_edge_def right_edge_def)
  with assms have h: "- of_int (speed g) < left_edge (move_horizontal (move_vertical g))
      \<and> right_edge (move_horizontal (move_vertical g))
        < of_int (display_width g) + of_int (speed g)"
    using horizontal_step [of "move_vertical g"] by (simp add: overshoot_bounded_def)
  have "top_edge (move_horizontal (move_vertical g)) = top_edge (move_vertical g)"
    and "bottom_edge (move_horizontal (move_vertical g)) = bottom_edge (move_vertical g)"
    by (simp_all add: top_edge_def bottom_edge_def)
  with v h assms show ?thesis
    by (simp add: overshoot_bounded_def)
qed

lemma overshoot_bounded_move:
  assumes "overshoot_bounded g"
  shows "overshoot_bounded (move rnd cp g)"
proof -
  let ?g2 = "(sprite_controller_move g)
               \<lparr>current_distance := current_distance (sprite_controller_move g)
                  + speed (sprite_controller_move g)\<rparr>"
  from assms have "overshoot_bounded ?g2"
    by (simp add: overshoot_bounded_def left_edge_def right_edge_def top_edge_def
                  bottom_edge_def)
  then have "overshoot_bounded (move_horizontal (move_vertical ?g2))"
    by (rule overshoot_bounded_axes)
  moreover have "unmoved (move_horizontal (move_vertical ?g2)) (move rnd cp g)"
    by (rule unmoved_move)
  ultimately show ?thesis
    by (simp add: overshoot_bounded_def unmoved_def left_edge_def right_edge_def top_edge_def
                  bottom_edge_def)
qed

lemma overshoot_bounded_frames:
  "overshoot_bounded g \<Longrightarrow> overshoot_bounded (frames rnd fs g)"
proof (induction fs arbitrary: g)
  case Nil
  then show ?case by simp
next
  case (Cons f fs)
  from Cons.prems have "overshoot_bounded (frame rnd f g)"
    unfolding frame_def by (intro overshoot_bounded_move overshoot_bounded_handle_all)
  then show ?case
    using Cons.IH by simp
qed

text \<open>
  C6, as amended. \<^verbatim>\<open>move\<close> tests an edge of the ship before the step and not after it: a
  step along an axis is taken only while the edge on that side is strictly inside the
  display. So from a position within the display, with a speed of at least 2 (it is 15), after
  any number of frames with any key events each bounding edge of the ship is less than one
  step outside the display: the left and top edges are above minus the speed, the right edge
  is below the display's width plus the speed, and the bottom edge is below the display's
  height plus \<^verbatim>\<open>speed / 2\<close>.
\<close>

theorem frames_overshoot_less_than_step:
  assumes "2 \<le> speed g"
    and "0 \<le> left_edge g" and "right_edge g \<le> of_int (display_width g)"
    and "0 \<le> top_edge g" and "bottom_edge g \<le> of_int (display_height g)"
  shows "- of_int (speed g) < left_edge (frames rnd fs g)
         \<and> right_edge (frames rnd fs g) < of_int (display_width g) + of_int (speed g)
         \<and> - of_int (speed g) < top_edge (frames rnd fs g)
         \<and> bottom_edge (frames rnd fs g) < of_int (display_height g) + of_int (speed g div 2)"
proof -
  from assms(1) have "0 < speed g div 2"
    by simp
  with assms have "overshoot_bounded g"
    by (simp add: overshoot_bounded_def)
  then have "overshoot_bounded (frames rnd fs g)"
    by (rule overshoot_bounded_frames)
  then show ?thesis
    by (simp add: overshoot_bounded_def)
qed

theorem frames_overshoot_less_than_step_witness:
  "2 \<le> speed sample_game
   \<and> 0 \<le> left_edge sample_game \<and> right_edge sample_game \<le> of_int (display_width sample_game)
   \<and> 0 \<le> top_edge sample_game \<and> bottom_edge sample_game \<le> of_int (display_height sample_game)
   \<and> - 15 < top_edge (frames quarter (replicate 37 ([(Up, False)], no_collision)) sample_game)
   \<and> top_edge (frames quarter (replicate 37 ([(Up, False)], no_collision)) sample_game) = - 14"
proof -
  have h: "2 \<le> speed sample_game"
    "0 \<le> left_edge sample_game" "right_edge sample_game \<le> of_int (display_width sample_game)"
    "0 \<le> top_edge sample_game" "bottom_edge sample_game \<le> of_int (display_height sample_game)"
    by code_simp+
  have s: "speed sample_game = 15"
    by code_simp
  have e: "top_edge (frames quarter (replicate 37 ([(Up, False)], no_collision)) sample_game)
           = - 14"
    by code_simp
  from frames_overshoot_less_than_step
         [OF h, of quarter "replicate 37 ([(Up, False)], no_collision)"]
  show ?thesis
    using h e by (simp add: s)
qed

text \<open>
  C6 as stated fails: the ship of the sample game starts within the display, at \<open>y = 561\<close>
  with its top edge at 541. With the Up key held it moves up by 15 in each frame; after 36
  frames its top edge is at 1, still inside, so the 37th frame moves it again, and its top
  edge is above the display.
\<close>

theorem ship_leaves_display_counterexample:
  "0 \<le> left_edge sample_game \<and> right_edge sample_game \<le> of_int (display_width sample_game)
   \<and> 0 \<le> top_edge sample_game \<and> bottom_edge sample_game \<le> of_int (display_height sample_game)
   \<and> top_edge (frames quarter (replicate 37 ([(Up, False)], no_collision)) sample_game) < 0"
  by code_simp

section \<open>Firing\<close>

text \<open>
  C8. A call of \<^verbatim>\<open>fire_projectile\<close> appends exactly two new projectiles to the list of
  projectiles in flight: the first at \<^verbatim>\<open>x - width / 2\<close> and the second at
  \<^verbatim>\<open>x + width / 2\<close> (\<^verbatim>\<open>/\<close> being the integer division of the code), where \<^verbatim>\<open>x\<close> is
  the horizontal position of the ship and \<^verbatim>\<open>width\<close> the width of its image, so that the
  ship's \<^verbatim>\<open>x\<close> is midway between them, and both at the ship's vertical position.
\<close>

theorem fire_projectile_appends_two:
  "\<exists>bullet0 bullet1.
     projectiles (fire_projectile g) = projectiles g @ [bullet0, bullet1]
     \<and> iid bullet0 \<noteq> iid bullet1
     \<and> img_x bullet0
       = img_x (sprite_image (player g)) - of_int (img_width (sprite_image (player g)) div 2)
     \<and> img_x bullet1
       = img_x (sprite_image (player g)) + of_int (img_width (sprite_image (player g)) div 2)
     \<and> img_x bullet0 + img_x bullet1 = 2 * img_x (sprite_image (player g))
     \<and> img_y bullet0 = img_y (sprite_image (player g))
     \<and> img_y bullet1 = img_y (sprite_image (player g))"
  by (simp add: fire_projectile_def Let_def)


text \<open>
  C7. The sample game after one frame with the fire key pressed has two projectiles in
  flight, with identities 1 and 2. \<^verbatim>\<open>ShipController.destroy\<close> destroys the first of them
  only: \<^verbatim>\<open>destroy_projectiles\<close> removes elements from the list it iterates over, so the
  iterator, at index 1 of a list that now has one element, stops. The second projectile stays
  in the list and \<^verbatim>\<open>destroy()\<close> is never called on it.
\<close>

theorem destroy_leaves_projectile:
  "map iid (projectiles (frame quarter ([(Space, False)], no_collision) sample_game)) = [1, 2]
   \<and> map iid (projectiles
        (destroy (frame quarter ([(Space, False)], no_collision) sample_game))) = [2]
   \<and> DestroyImage 1
       \<in> set (effects (destroy (frame quarter ([(Space, False)], no_collision) sample_game)))
   \<and> DestroyImage 2
       \<notin> set (effects (destroy (frame quarter ([(Space, False)], no_collision) sample_game)))"
  by code_simp

section \<open>Collisions\<close>

lemma replace_sprite_same:
  assumes "distinct (map sid as)" and "a \<in> set as"
  shows "replace_sprite a as = as"
proof -
  from assms(1) have "inj_on sid (set as)"
    by (simp add: distinct_map)
  with assms(2) have "(if sid b = sid a then a else b) = b" if "b \<in> set as" for b
    using that by (auto dest: inj_onD)
  then show ?thesis
    unfolding replace_sprite_def by (simp add: map_idI)
qed

lemma remove_sid_remove1:
  "distinct (map sid as) \<Longrightarrow> a \<in> set as \<Longrightarrow> remove_sid (sid a) as = remove1 a as"
  by (induction as) auto

lemma check_projectile_collisions_loop_hit:
  assumes "find (\<lambda>b. cp p (sprite_image b)) as = Some a"
  shows "\<exists>tests. list_all is_collide_point tests
           \<and> check_projectile_collisions_loop cp p as g
             = (True, asteroid_hurt a (g\<lparr>effects := effects g @ tests\<rparr>))"
  using assms
proof (induction as arbitrary: g)
  case Nil
  then show ?case by simp
next
  case (Cons b as)
  let ?t = "CollidePoint (iid p) (iid (sprite_image b))"
  let ?g1 = "g\<lparr>effects := effects g @ [?t]\<rparr>"
  show ?case
  proof (cases "cp p (sprite_image b)")
    case True
    with Cons.prems have "a = b"
      by simp
    with True have "list_all is_collide_point [?t]
      \<and> check_projectile_collisions_loop cp p (b # as) g
        = (True, asteroid_hurt a (g\<lparr>effects := effects g @ [?t]\<rparr>))"
      by (simp add: Let_def)
    then show ?thesis
      by blast
  next
    case False
    with Cons.prems have "find (\<lambda>b. cp p (sprite_image b)) as = Some a"
      by simp
    from this Cons.IH [where g = ?g1] obtain tests where t: "list_all is_collide_point tests"
      and c: "check_projectile_collisions_loop cp p as ?g1
              = (True, asteroid_hurt a (?g1\<lparr>effects := effects ?g1 @ tests\<rparr>))"
      by blast
    from t c False have "list_all is_collide_point (?t # tests)
      \<and> check_projectile_collisions_loop cp p (b # as) g
        = (True, asteroid_hurt a (g\<lparr>effects := effects g @ ?t # tests\<rparr>))"
      by (simp add: Let_def)
    then show ?thesis
      by blast
  qed
qed

lemma check_player_collisions_loop_hit:
  assumes "find (\<lambda>b. cp (sprite_image b) (sprite_image (player g))) as = Some a"
  shows "\<exists>tests. list_all is_collide_point tests
           \<and> check_player_collisions_loop cp as g
             = player_hurt a (g\<lparr>effects := effects g @ tests\<rparr>)"
  using assms
proof (induction as arbitrary: g)
  case Nil
  then show ?case by simp
next
  case (Cons b as)
  let ?t = "CollidePoint (iid (sprite_image b)) (iid (sprite_image (player g)))"
  let ?g1 = "g\<lparr>effects := effects g @ [?t]\<rparr>"
  show ?case
  proof (cases "cp (sprite_image b) (sprite_image (player g))")
    case True
    with Cons.prems have "a = b"
      by simp
    with True have "list_all is_collide_point [?t]
      \<and> check_player_collisions_loop cp (b # as) g
        = player_hurt a (g\<lparr>effects := effects g @ [?t]\<rparr>)"
      by (simp add: Let_def)
    then show ?thesis
      by blast
  next
    case False
    with Cons.prems
    have "find (\<lambda>b. cp (sprite_image b) (sprite_image (player ?g1))) as = Some a"
      by simp
    from this Cons.IH [where g = ?g1] obtain tests where t: "list_all is_collide_point tests"
      and c: "check_player_collisions_loop cp as ?g1
              = player_hurt a (?g1\<lparr>effects := effects ?g1 @ tests\<rparr>)"
      by blast
    from t c False have "list_all is_collide_point (?t # tests)
      \<and> check_player_collisions_loop cp (b # as) g
        = player_hurt a (g\<lparr>effects := effects g @ ?t # tests\<rparr>)"
      by (simp add: Let_def)
    then show ?thesis
      by blast
  qed
qed

text \<open>
  C2, as amended. The attachment of a carrier is granted when a projectile of the player hits
  the carrier, not when the carrier overlaps the player's sprite. If the first asteroid a
  projectile collides with is a carrier (its health is 0, so \<^verbatim>\<open>hurt\<close> is its death
  transition) and the player holds no attachment, then the attachment type of the carrier is
  instantiated and becomes the player's attachment, its setup routine runs, the attachment
  sound plays, and the carrier is removed from the asteroids by
  \<^verbatim>\<open>remove_asteroid(self, False)\<close>; \<^verbatim>\<open>explode\<close> is not called. If a carrier is the first
  asteroid that overlaps the sprite of a player whose health is positive,
  \<^verbatim>\<open>check_player_collisions\<close> calls the player's \<^verbatim>\<open>hurt\<close>, which subtracts the carrier's
  damage, 0: apart from the collision tests made, nothing changes.
\<close>

theorem carrier_grants_on_projectile_hit:
  assumes "distinct (map sid (asteroids g))"
    and "cls a = MechanismAsteroid m" and "can_damage a" and "health a \<le> 0"
    and "attachment (player g) = None"
  shows "(find (\<lambda>b. cp p (sprite_image b)) (asteroids g) = Some a \<longrightarrow>
            fst (check_projectile_collisions cp p g)
            \<and> attachment (player (snd (check_projectile_collisions cp p g)))
              = Some (new_attachment m)
            \<and> asteroids (snd (check_projectile_collisions cp p g)) = remove1 a (asteroids g)
            \<and> a \<notin> set (asteroids (snd (check_projectile_collisions cp p g)))
            \<and> (\<exists>tests. list_all is_collide_point tests
                 \<and> effects (snd (check_projectile_collisions cp p g))
                   = effects g @ tests @ [Setup m]
                     @ (if attachment_sound (player g) then [Stop AttachmentSound] else [])
                     @ [Play AttachmentSound, RemoveAsteroid (sid a) False]))
         \<and> (find (\<lambda>b. cp (sprite_image b) (sprite_image (player g))) (asteroids g) = Some a
            \<and> can_damage (player g) \<and> 0 < health (player g) \<and> damage a = 0 \<longrightarrow>
            (\<exists>tests. list_all is_collide_point tests
               \<and> check_player_collisions cp g = g\<lparr>effects := effects g @ tests\<rparr>))"
proof (intro conjI impI)
  assume f: "find (\<lambda>b. cp p (sprite_image b)) (asteroids g) = Some a"
  then have in_as: "a \<in> set (asteroids g)"
    by (auto simp: find_Some_iff)
  from f check_projectile_collisions_loop_hit
           [where cp = cp and p = p and as = "asteroids g" and a = a and g = g]
  obtain tests where t: "list_all is_collide_point tests"
    and c: "check_projectile_collisions cp p g
            = (True, asteroid_hurt a (g\<lparr>effects := effects g @ tests\<rparr>))"
    unfolding check_projectile_collisions_def by blast
  let ?g1 = "g\<lparr>effects := effects g @ tests\<rparr>"
  let ?p = "(player g)\<lparr>attachment := Some (new_attachment m), attachment_sound := True\<rparr>"
  let ?evs = "[Setup m] @ (if attachment_sound (player g) then [Stop AttachmentSound] else [])
              @ [Play AttachmentSound, RemoveAsteroid (sid a) False]"
  from assms(5) have s: "attachment_setter (Some (new_attachment m)) (player g)
    = (?p, [Setup m] @ (if attachment_sound (player g) then [Stop AttachmentSound] else [])
           @ [Play AttachmentSound])"
    by (simp add: attachment_setter_def new_attachment_def)
  from assms(2,3,4) have h: "hurt a (player ?g1) = (a, ?p, ?evs)"
    by (simp add: hurt_def die.simps s)
  have r: "remove_sid (sid a) (replace_sprite a (asteroids g)) = remove1 a (asteroids g)"
    using assms(1) in_as by (simp add: replace_sprite_same remove_sid_remove1)
  have ah: "asteroid_hurt a ?g1
    = ?g1\<lparr>player := ?p, asteroids := remove1 a (asteroids g),
          effects := effects g @ tests @ ?evs\<rparr>"
    unfolding asteroid_hurt_def h using r by simp
  from assms(1) have d: "distinct (asteroids g)"
    by (simp add: distinct_map)
  show "fst (check_projectile_collisions cp p g)"
    by (simp add: c)
  show "attachment (player (snd (check_projectile_collisions cp p g)))
        = Some (new_attachment m)"
    by (simp add: c ah)
  show "asteroids (snd (check_projectile_collisions cp p g)) = remove1 a (asteroids g)"
    by (simp add: c ah)
  show "a \<notin> set (asteroids (snd (check_projectile_collisions cp p g)))"
    using d by (simp add: c ah)
  show "\<exists>tests. list_all is_collide_point tests
          \<and> effects (snd (check_projectile_collisions cp p g))
            = effects g @ tests @ [Setup m]
              @ (if attachment_sound (player g) then [Stop AttachmentSound] else [])
              @ [Play AttachmentSound, RemoveAsteroid (sid a) False]"
    using t by (intro exI [of _ tests]) (simp add: c ah)
next
  assume "find (\<lambda>b. cp (sprite_image b) (sprite_image (player g))) (asteroids g) = Some a
          \<and> can_damage (player g) \<and> 0 < health (player g) \<and> damage a = 0"
  then have f: "find (\<lambda>b. cp (sprite_image b) (sprite_image (player g))) (asteroids g) = Some a"
    and live: "can_damage (player g)" "0 < health (player g)" and zero: "damage a = 0"
    by simp_all
  from f have in_as: "a \<in> set (asteroids g)"
    by (auto simp: find_Some_iff)
  from f check_player_collisions_loop_hit
           [where cp = cp and as = "asteroids g" and a = a and g = g]
  obtain tests where t: "list_all is_collide_point tests"
    and c: "check_player_collisions cp g = player_hurt a (g\<lparr>effects := effects g @ tests\<rparr>)"
    unfolding check_player_collisions_def by blast
  from live zero have "hurt (player g) a = (player g, a, [])"
    by (simp add: hurt_def)
  then have "player_hurt a (g\<lparr>effects := effects g @ tests\<rparr>) = g\<lparr>effects := effects g @ tests\<rparr>"
    using assms(1) in_as by (simp add: player_hurt_def replace_sprite_same)
  with t c show "\<exists>tests. list_all is_collide_point tests
                   \<and> check_player_collisions cp g = g\<lparr>effects := effects g @ tests\<rparr>"
    by auto
qed

theorem carrier_grants_on_projectile_hit_witness:
  "distinct (map sid (asteroids carrier_game))
   \<and> cls sample_carrier = MechanismAsteroid ShieldMechanism
   \<and> can_damage sample_carrier \<and> health sample_carrier \<le> 0
   \<and> attachment (player carrier_game) = None
   \<and> find (\<lambda>b. all_collide sample_bullet (sprite_image b)) (asteroids carrier_game)
     = Some sample_carrier
   \<and> find (\<lambda>b. all_collide (sprite_image b) (sprite_image (player carrier_game)))
       (asteroids carrier_game) = Some sample_carrier
   \<and> can_damage (player carrier_game) \<and> 0 < health (player carrier_game)
   \<and> damage sample_carrier = 0
   \<and> attachment (player (snd (check_projectile_collisions all_collide sample_bullet
        carrier_game))) = Some (new_attachment ShieldMechanism)
   \<and> asteroids (snd (check_projectile_collisions all_collide sample_bullet carrier_game)) = []
   \<and> (\<exists>tests. list_all is_collide_point tests
        \<and> check_player_collisions all_collide carrier_game
          = carrier_game\<lparr>effects := effects carrier_game @ tests\<rparr>)"
proof -
  have h: "distinct (map sid (asteroids carrier_game))"
    "cls sample_carrier = MechanismAsteroid ShieldMechanism"
    "can_damage sample_carrier" "health sample_carrier \<le> 0"
    "attachment (player carrier_game) = None"
    by code_simp+
  have f: "find (\<lambda>b. all_collide sample_bullet (sprite_image b)) (asteroids carrier_game)
           = Some sample_carrier"
    "find (\<lambda>b. all_collide (sprite_image b) (sprite_image (player carrier_game)))
       (asteroids carrier_game) = Some sample_carrier"
    "can_damage (player carrier_game)" "0 < health (player carrier_game)"
    "damage sample_carrier = 0"
    by code_simp+
  have as: "asteroids carrier_game = [sample_carrier]"
    by (simp add: carrier_game_def new_game_def)
  from carrier_grants_on_projectile_hit [OF h, of all_collide sample_bullet] f h
  show ?thesis
    by (simp add: as)
qed

text \<open>
  C2 as stated fails: the player of this game holds no attachment and a carrier of the shield
  overlaps the player's sprite. After \<^verbatim>\<open>check_player_collisions\<close>, and after a whole call
  of \<^verbatim>\<open>move\<close>, the player still holds no attachment and the carrier is still among the
  asteroids.
\<close>

theorem carrier_overlap_grants_nothing_counterexample:
  "attachment (player carrier_game) = None
   \<and> asteroids carrier_game = [sample_carrier]
   \<and> cls sample_carrier = MechanismAsteroid ShieldMechanism
   \<and> all_collide (sprite_image sample_carrier) (sprite_image (player carrier_game))
   \<and> attachment (player (check_player_collisions all_collide carrier_game)) = None
   \<and> asteroids (check_player_collisions all_collide carrier_game) = [sample_carrier]
   \<and> attachment (player (move quarter all_collide carrier_game)) = None
   \<and> asteroids (move quarter all_collide carrier_game) = [sample_carrier]"
  by code_simp




section \<open>The pass over the projectiles\<close>

lemma remove1_nth:
  "distinct xs \<Longrightarrow> i < length xs \<Longrightarrow> remove1 (xs ! i) xs = take i xs @ drop (Suc i) xs"
proof (induction xs arbitrary: i)
  case Nil
  then show ?case by simp
next
  case (Cons x xs)
  show ?case
  proof (cases i)
    case 0
    then show ?thesis by simp
  next
    case (Suc j)
    with Cons.prems have "xs ! j \<noteq> x"
      by auto
    with Suc Cons show ?thesis
      by simp
  qed
qed

lemma effects_parent_calls [simp]: "effects (parent_calls evs g) = effects g @ evs"
proof (induction evs arbitrary: g)
  case Nil
  show ?case by simp
next
  case (Cons e evs)
  have "effects (parent_call e g) = effects g @ [e]"
    by (cases e) simp_all
  with Cons show ?case
    by simp
qed

lemma touches_attachment_setter:
  "attachment_setter offered s = (s', evs) \<Longrightarrow> e \<in> set evs \<Longrightarrow> \<not> touches n e"
  by (auto simp: attachment_setter_def split: if_splits option.splits)

lemma touches_die: "e \<in> set (snd (snd (die s a))) \<Longrightarrow> \<not> touches n e"
  by (auto simp: die.simps split: sprite_class.splits prod.splits
           dest: touches_attachment_setter [where n = n])

lemma touches_hurt: "e \<in> set (snd (snd (hurt s a))) \<Longrightarrow> \<not> touches n e"
  by (auto simp: hurt_def split: if_splits dest: touches_die [where n = n])

lemma effects_asteroid_hurt:
  "\<exists>evs. effects (asteroid_hurt a g) = effects g @ evs \<and> (\<forall>e \<in> set evs. \<forall>n. \<not> touches n e)"
proof -
  obtain a' k' evs where h: "hurt a (player g) = (a', k', evs)"
    by (cases "hurt a (player g)")
  then have "e \<in> set evs \<Longrightarrow> \<not> touches n e" for e n
    using touches_hurt [of e a "player g" n] by simp
  moreover from h have "effects (asteroid_hurt a g) = effects g @ evs"
    by (simp add: asteroid_hurt_def)
  ultimately show ?thesis
    by blast
qed

lemma effects_check_projectile_collisions_loop:
  "\<exists>evs. effects (snd (check_projectile_collisions_loop cp p as g)) = effects g @ evs
         \<and> (\<forall>e \<in> set evs. \<forall>n. touches n e \<longrightarrow> n = iid p)
         \<and> (\<forall>e \<in> set evs. \<forall>n. e \<noteq> DestroyImage n)"
proof (induction as arbitrary: g)
  case Nil
  show ?case by simp
next
  case (Cons a as)
  let ?t = "CollidePoint (iid p) (iid (sprite_image a))"
  let ?g1 = "g\<lparr>effects := effects g @ [?t]\<rparr>"
  show ?case
  proof (cases "cp p (sprite_image a)")
    case True
    from effects_asteroid_hurt [of a ?g1] obtain evs
      where e: "effects (asteroid_hurt a ?g1) = effects ?g1 @ evs"
        and n: "\<forall>e \<in> set evs. \<forall>n. \<not> touches n e"
      by blast
    from n have "\<forall>e \<in> set evs. \<forall>n. e \<noteq> DestroyImage n"
      by (metis touches.simps(2))
    with True e n
    have "effects (snd (check_projectile_collisions_loop cp p (a # as) g))
            = effects g @ (?t # evs)
          \<and> (\<forall>e \<in> set (?t # evs). \<forall>n. touches n e \<longrightarrow> n = iid p)
          \<and> (\<forall>e \<in> set (?t # evs). \<forall>n. e \<noteq> DestroyImage n)"
      by (simp add: Let_def)
    then show ?thesis
      by blast
  next
    case False
    from Cons.IH [of ?g1] obtain evs
      where e: "effects (snd (check_projectile_collisions_loop cp p as ?g1))
                = effects ?g1 @ evs"
        and n: "\<forall>e \<in> set evs. \<forall>n. touches n e \<longrightarrow> n = iid p"
        and d: "\<forall>e \<in> set evs. \<forall>n. e \<noteq> DestroyImage n"
      by blast
    with False
    have "effects (snd (check_projectile_collisions_loop cp p (a # as) g))
            = effects g @ (?t # evs)
          \<and> (\<forall>e \<in> set (?t # evs). \<forall>n. touches n e \<longrightarrow> n = iid p)
          \<and> (\<forall>e \<in> set (?t # evs). \<forall>n. e \<noteq> DestroyImage n)"
      by (simp add: Let_def)
    then show ?thesis
      by blast
  qed
qed

text \<open>
  One step of the loop, at index \<open>i\<close>: either the projectile at \<open>i\<close> is destroyed and taken
  out of the list, or it stays at \<open>i\<close>, possibly moved. All calls are made on that projectile.
\<close>

lemma update_projectile_step:
  assumes "distinct (map iid (projectiles g))" and "i < length (projectiles g)"
  shows "\<exists>evs. effects (update_projectile rnd cp i g) = effects g @ evs
           \<and> (\<forall>e \<in> set evs. \<forall>n. touches n e \<longrightarrow> n = iid (projectiles g ! i))
           \<and> (projectiles (update_projectile rnd cp i g)
                = take i (projectiles g) @ drop (Suc i) (projectiles g)
              \<and> DestroyImage (iid (projectiles g ! i)) \<in> set evs
              \<or> (\<exists>p'. iid p' = iid (projectiles g ! i)
                    \<and> projectiles (update_projectile rnd cp i g) = (projectiles g)[i := p'])
                \<and> DestroyImage (iid (projectiles g ! i)) \<notin> set evs)"
proof -
  let ?ps = "projectiles g"
  let ?p = "?ps ! i"
  from assms(1) have "distinct ?ps"
    by (simp add: distinct_map)
  then have r: "remove1 ?p ?ps = take i ?ps @ drop (Suc i) ?ps"
    using assms(2) by (rule remove1_nth)
  obtain hit g1 where c: "check_projectile_collisions cp ?p g = (hit, g1)"
    by (cases "check_projectile_collisions cp ?p g")
  have "projectiles (snd (check_projectile_collisions cp ?p g)) = ?ps"
    by simp
  with c have ps1: "projectiles g1 = ?ps"
    by simp
  from effects_check_projectile_collisions_loop [of cp ?p "asteroids g" g] c
  obtain evs where e: "effects g1 = effects g @ evs"
    and n: "\<forall>e \<in> set evs. \<forall>n. touches n e \<longrightarrow> n = iid ?p"
    and d: "\<forall>e \<in> set evs. \<forall>n. e \<noteq> DestroyImage n"
    by (auto simp: check_projectile_collisions_def)
  show ?thesis
  proof (cases "img_y ?p \<le> 0")
    case True
    then have "update_projectile rnd cp i g = destroy_projectile ?p g"
      by (simp add: update_projectile_def)
    then show ?thesis
      by (intro exI [of _ "[DestroyImage (iid ?p)]"]) (simp add: destroy_projectile_def r)
  next
    case above: False
    show ?thesis
    proof (cases hit)
      case True
      with above c have "update_projectile rnd cp i g = destroy_projectile ?p g1"
        by (simp add: update_projectile_def)
      with n show ?thesis
        by (intro exI [of _ "evs @ [DestroyImage (iid ?p)]"])
           (auto simp: destroy_projectile_def r ps1 e)
    next
      case False
      let ?p' = "?p\<lparr>img_y := img_y ?p - rnd (draws g1) * of_int (projectile_speed g1) * 2\<rparr>"
      from False above c
      have u: "update_projectile rnd cp i g
               = g1\<lparr>projectiles := (projectiles g1)[i := ?p'], draws := Suc (draws g1)\<rparr>"
        by (simp add: update_projectile_def Let_def)
      have "iid ?p' = iid ?p \<and> projectiles (update_projectile rnd cp i g) = ?ps[i := ?p']"
        by (simp add: u ps1)
      then have "\<exists>p'. iid p' = iid ?p
                   \<and> projectiles (update_projectile rnd cp i g) = ?ps[i := p']"
        by (rule exI)
      moreover from d have "DestroyImage (iid ?p) \<notin> set evs"
        by blast
      moreover have "effects (update_projectile rnd cp i g) = effects g @ evs"
        by (simp add: u e)
      ultimately show ?thesis
        using n by blast
    qed
  qed
qed

lemma update_projectile_cases:
  assumes "distinct (map iid (projectiles g))" and "k < length (projectiles g)"
  obtains (destroyed) evs where
      "effects (update_projectile rnd cp k g) = effects g @ evs"
      "\<forall>e \<in> set evs. \<forall>n. touches n e \<longrightarrow> n = iid (projectiles g ! k)"
      "projectiles (update_projectile rnd cp k g)
       = take k (projectiles g) @ drop (Suc k) (projectiles g)"
      "DestroyImage (iid (projectiles g ! k)) \<in> set evs"
  | (kept) evs p' where
      "effects (update_projectile rnd cp k g) = effects g @ evs"
      "\<forall>e \<in> set evs. \<forall>n. touches n e \<longrightarrow> n = iid (projectiles g ! k)"
      "iid p' = iid (projectiles g ! k)"
      "projectiles (update_projectile rnd cp k g) = (projectiles g)[k := p']"
      "DestroyImage (iid (projectiles g ! k)) \<notin> set evs"
  using update_projectile_step [OF assms, of rnd cp] by blast

lemma nth_notin_take: "distinct xs \<Longrightarrow> k < length xs \<Longrightarrow> xs ! k \<notin> set (take k xs)"
  by (metis id_take_nth_drop distinct_append disjoint_iff list.set_intros(1))

lemma distinct_take_drop: "distinct xs \<Longrightarrow> distinct (take k xs @ drop (Suc k) xs)"
proof (cases "k < length xs")
  case True
  assume "distinct xs"
  then show ?thesis
    using True remove1_nth [of xs k] distinct_remove1 [of xs "xs ! k"] by simp
next
  case False
  assume "distinct xs"
  with False show ?thesis
    by simp
qed

lemma distinct_iid_update_projectile:
  assumes "distinct (map iid (projectiles g))" and "k < length (projectiles g)"
  shows "distinct (map iid (projectiles (update_projectile rnd cp k g)))"
  using assms
proof (cases rule: update_projectile_cases [where rnd = rnd and cp = cp])
  case (destroyed evs)
  from assms(1) have "distinct (take k (map iid (projectiles g))
                                @ drop (Suc k) (map iid (projectiles g)))"
    by (rule distinct_take_drop)
  with destroyed(3) show ?thesis
    by (simp add: take_map drop_map)
next
  case (kept evs p')
  from kept(3) assms(2) have "(map iid (projectiles g))[k := iid p'] = map iid (projectiles g)"
    by (simp add: list_update_same_conv)
  with kept(4) assms(1) show ?thesis
    by (simp add: map_update)
qed

lemma new_effects_eq: "effects g' = effects g @ evs \<Longrightarrow> new_effects g g' = evs"
  by (simp add: new_effects_def)

lemma iid_notin_take:
  assumes "distinct (map iid ps)" and "k < length ps" and "q \<in> set (take k ps)"
  shows "iid q \<noteq> iid (ps ! k)"
proof -
  from assms(1,2) have "map iid ps ! k \<notin> set (take k (map iid ps))"
    by (intro nth_notin_take) simp_all
  with assms(2) have "iid (ps ! k) \<notin> iid ` set (take k ps)"
    by (simp add: take_map)
  with assms(3) show ?thesis
    by (metis imageI)
qed

text \<open>
  The loop from index \<open>k\<close> on leaves the first \<open>k\<close> elements of the list where they are and
  makes no call on them.
\<close>

lemma update_projectiles_from_prefix:
  assumes "distinct (map iid (projectiles g))"
  shows "effects (update_projectiles_from rnd cp k g)
           = effects g @ new_effects g (update_projectiles_from rnd cp k g)
         \<and> take k (projectiles (update_projectiles_from rnd cp k g)) = take k (projectiles g)
         \<and> (\<forall>e \<in> set (new_effects g (update_projectiles_from rnd cp k g)).
              \<forall>q \<in> set (take k (projectiles g)). \<not> touches (iid q) e)"
  using assms
proof (induction rnd cp k g rule: update_projectiles_from.induct)
  case (1 rnd cp k g)
  let ?ps = "projectiles g"
  let ?g1 = "update_projectile rnd cp k g"
  let ?g' = "update_projectiles_from rnd cp (Suc k) ?g1"
  show ?case
  proof (cases "k < length ?ps")
    case False
    then show ?thesis
      by (simp add: update_projectiles_from.simps [of rnd cp k g] new_effects_def)
  next
    case True
    then have unfold: "update_projectiles_from rnd cp k g = ?g'"
      by (simp add: update_projectiles_from.simps [of rnd cp k g])
    from "1.prems" True have d1: "distinct (map iid (projectiles ?g1))"
      by (rule distinct_iid_update_projectile)
    note ih = "1.IH" [OF True d1]
    from update_projectile_step [OF "1.prems" True, of rnd cp]
    obtain evs where e1: "effects ?g1 = effects g @ evs"
      and t1: "\<forall>e \<in> set evs. \<forall>n. touches n e \<longrightarrow> n = iid (?ps ! k)"
      by blast
    from "1.prems" True have p1: "take k (projectiles ?g1) = take k ?ps"
      by (cases rule: update_projectile_cases [where rnd = rnd and cp = cp])
         (use True in simp_all)
    from ih e1 have e: "effects ?g' = effects g @ evs @ new_effects ?g1 ?g'"
      by simp
    then have n: "new_effects g ?g' = evs @ new_effects ?g1 ?g'"
      by (rule new_effects_eq)
    from ih have "take k (take (Suc k) (projectiles ?g')) = take k (take (Suc k) (projectiles ?g1))"
      by simp
    with p1 have p: "take k (projectiles ?g') = take k ?ps"
      by (simp add: min_def)
    have "\<not> touches (iid q) e" if "e \<in> set (new_effects g ?g')" and "q \<in> set (take k ?ps)"
      for e q
    proof (cases "e \<in> set evs")
      case True
      from "1.prems" \<open>k < length ?ps\<close> that(2) have "iid q \<noteq> iid (?ps ! k)"
        by (rule iid_notin_take)
      with t1 True show ?thesis
        by blast
    next
      case False
      with that(1) n have "e \<in> set (new_effects ?g1 ?g')"
        by simp
      moreover from that(2) p1 have "q \<in> set (take (Suc k) (projectiles ?g1))"
        by (metis le_add2 plus_1_eq_Suc set_take_subset_set_take subsetD)
      ultimately show ?thesis
        using ih by blast
    qed
    with e n p show ?thesis
      unfolding unfold by simp
  qed
qed

lemma iid_nth_neq:
  assumes "distinct (map iid ps)" and "a < length ps" and "b < length ps" and "a \<noteq> b"
  shows "iid (ps ! a) \<noteq> iid (ps ! b)"
proof -
  from assms have "map iid ps ! a \<noteq> map iid ps ! b"
    by (simp add: nth_eq_iff_index_eq del: nth_map)
  with assms(2,3) show ?thesis
    by simp
qed

lemma nth_take_drop:
  assumes "k \<le> i" and "Suc i < length xs"
  shows "(take k xs @ drop (Suc k) xs) ! i = xs ! Suc i"
proof -
  from assms have "(take k xs @ drop (Suc k) xs) ! i = drop (Suc k) xs ! (i - k)"
    by (simp add: nth_append min_def)
  also from assms have "\<dots> = xs ! (Suc k + (i - k))"
    by (intro nth_drop) simp
  finally show ?thesis
    using assms(1) by simp
qed

lemma nth_in_take: "k < length xs \<Longrightarrow> xs ! k \<in> set (take (Suc k) xs)"
  by (simp add: take_Suc_conv_app_nth)

text \<open>
  The loop from index \<open>k\<close> on: when it destroys the projectile that is at index \<open>j\<close> of the
  list as it is when the loop is at \<open>k\<close>, it leaves the projectile at index \<open>j + 1\<close> in the
  list and makes no call on it.
\<close>

lemma update_projectiles_from_skips:
  assumes "distinct (map iid (projectiles g))" and "k \<le> j" and "Suc j < length (projectiles g)"
    and "DestroyImage (iid (projectiles g ! j))
           \<in> set (new_effects g (update_projectiles_from rnd cp k g))"
  shows "projectiles g ! Suc j \<in> set (projectiles (update_projectiles_from rnd cp k g))
         \<and> (\<forall>e \<in> set (new_effects g (update_projectiles_from rnd cp k g)).
              \<not> touches (iid (projectiles g ! Suc j)) e)"
  using assms
proof (induction rnd cp k g arbitrary: j rule: update_projectiles_from.induct)
  case (1 rnd cp k g)
  let ?ps = "projectiles g"
  let ?g1 = "update_projectile rnd cp k g"
  let ?g' = "update_projectiles_from rnd cp (Suc k) ?g1"
  let ?new = "new_effects ?g1 ?g'"
  let ?d = "DestroyImage (iid (?ps ! j))"
  note dist = "1.prems"(1)
  from "1.prems"(2,3) have klt: "k < length ?ps" and jlt: "j < length ?ps"
    by simp_all
  then have unfold: "update_projectiles_from rnd cp k g = ?g'"
    by (simp add: update_projectiles_from.simps [of rnd cp k g])
  from dist klt have d1: "distinct (map iid (projectiles ?g1))"
    by (rule distinct_iid_update_projectile)
  from update_projectiles_from_prefix [OF d1, of rnd cp "Suc k"]
  have pre_e: "effects ?g' = effects ?g1 @ ?new"
    and pre_p: "take (Suc k) (projectiles ?g') = take (Suc k) (projectiles ?g1)"
    and pre_t: "\<And>e q. e \<in> set ?new \<Longrightarrow> q \<in> set (take (Suc k) (projectiles ?g1))
                  \<Longrightarrow> \<not> touches (iid q) e"
    by blast+
  from "1.prems"(4) have destroyed_j: "?d \<in> set (new_effects g ?g')"
    by (simp add: unfold)
  from dist "1.prems"(2,3) klt have next_neq: "iid (?ps ! Suc j) \<noteq> iid (?ps ! k)"
    by (intro iid_nth_neq) simp_all
  show ?case
    using dist klt
  proof (cases rule: update_projectile_cases [where rnd = rnd and cp = cp])
    case (destroyed evs)
    let ?ps1 = "take k ?ps @ drop (Suc k) ?ps"
    from destroyed(1) pre_e have "effects ?g' = effects g @ evs @ ?new"
      by simp
    then have n: "new_effects g ?g' = evs @ ?new"
      by (rule new_effects_eq)
    from destroyed(2) next_neq have evs_not: "\<forall>e \<in> set evs. \<not> touches (iid (?ps ! Suc j)) e"
      by blast
    from klt have len1: "Suc (length ?ps1) = length ?ps"
      by simp
    show ?thesis
    proof (cases "j = k")
      case True
      with "1.prems"(3) have q: "?ps1 ! k = ?ps ! Suc j"
        by (simp add: nth_take_drop)
      from True "1.prems"(3) len1 have "k < length ?ps1"
        by simp
      then have in1: "?ps1 ! k \<in> set (take (Suc k) ?ps1)"
        by (rule nth_in_take)
      with pre_p destroyed(3) have "?ps1 ! k \<in> set (take (Suc k) (projectiles ?g'))"
        by simp
      then have "?ps ! Suc j \<in> set (projectiles ?g')"
        unfolding q by (rule in_set_takeD)
      moreover from in1 destroyed(3) pre_t
      have "\<forall>e \<in> set ?new. \<not> touches (iid (?ps ! Suc j)) e"
        unfolding q [symmetric] by simp
      ultimately show ?thesis
        using evs_not n unfolding unfold by auto
    next
      case False
      with "1.prems"(2) have kj: "k < j"
        by simp
      from dist jlt klt False have "iid (?ps ! j) \<noteq> iid (?ps ! k)"
        by (intro iid_nth_neq)
      with destroyed(2) have "?d \<notin> set evs"
        by (metis touches.simps(2))
      with destroyed_j n have in_new: "?d \<in> set ?new"
        by simp
      from kj jlt have at_j: "?ps1 ! (j - 1) = ?ps ! j"
        using nth_take_drop [of k "j - 1" ?ps] by simp
      show ?thesis
      proof (cases "j = Suc k")
        case True
        with at_j have "?ps1 ! k = ?ps ! j"
          by simp
        moreover from True jlt len1 have "k < length ?ps1"
          by simp
        then have "?ps1 ! k \<in> set (take (Suc k) ?ps1)"
          by (rule nth_in_take)
        ultimately have "?ps ! j \<in> set (take (Suc k) (projectiles ?g1))"
          using destroyed(3) by simp
        with in_new pre_t have "\<not> touches (iid (?ps ! j)) ?d"
          by blast
        then show ?thesis
          by simp
      next
        case far: False
        with kj have "Suc k \<le> j - 1"
          by simp
        moreover from "1.prems"(3) len1 kj have "Suc (j - 1) < length (projectiles ?g1)"
          by (simp add: destroyed(3))
        moreover from in_new at_j
        have "DestroyImage (iid (projectiles ?g1 ! (j - 1))) \<in> set ?new"
          by (simp add: destroyed(3))
        ultimately have "projectiles ?g1 ! Suc (j - 1) \<in> set (projectiles ?g')
            \<and> (\<forall>e \<in> set ?new. \<not> touches (iid (projectiles ?g1 ! Suc (j - 1))) e)"
          by (rule "1.IH" [OF klt d1])
        moreover from kj "1.prems"(3) have "projectiles ?g1 ! Suc (j - 1) = ?ps ! Suc j"
          by (simp add: destroyed(3) nth_take_drop)
        ultimately show ?thesis
          using evs_not n unfolding unfold by auto
      qed
    qed
  next
    case (kept evs p')
    let ?ps1 = "?ps[k := p']"
    from kept(1) pre_e have "effects ?g' = effects g @ evs @ ?new"
      by simp
    then have n: "new_effects g ?g' = evs @ ?new"
      by (rule new_effects_eq)
    from kept(2) next_neq have evs_not: "\<forall>e \<in> set evs. \<not> touches (iid (?ps ! Suc j)) e"
      by blast
    show ?thesis
    proof (cases "j = k")
      case True
      with kept(5) destroyed_j n have in_new: "?d \<in> set ?new"
        by simp
      from klt have "?ps1 ! k \<in> set (take (Suc k) ?ps1)"
        by (intro nth_in_take) simp
      with klt have "p' \<in> set (take (Suc k) (projectiles ?g1))"
        by (simp add: kept(4))
      with in_new pre_t have "\<not> touches (iid p') ?d"
        by blast
      with True kept(3) show ?thesis
        by simp
    next
      case False
      with "1.prems"(2) have kj: "Suc k \<le> j"
        by simp
      from dist jlt klt False have "iid (?ps ! j) \<noteq> iid (?ps ! k)"
        by (intro iid_nth_neq)
      with kept(2) have "?d \<notin> set evs"
        by (metis touches.simps(2))
      with destroyed_j n have "?d \<in> set ?new"
        by simp
      with kj have "DestroyImage (iid (projectiles ?g1 ! j)) \<in> set ?new"
        by (simp add: kept(4))
      moreover from "1.prems"(3) have "Suc j < length (projectiles ?g1)"
        by (simp add: kept(4))
      ultimately have "projectiles ?g1 ! Suc j \<in> set (projectiles ?g')
          \<and> (\<forall>e \<in> set ?new. \<not> touches (iid (projectiles ?g1 ! Suc j)) e)"
        by (intro "1.IH" [OF klt d1 kj])
      moreover from kj have "projectiles ?g1 ! Suc j = ?ps ! Suc j"
        by (simp add: kept(4))
      ultimately show ?thesis
        using evs_not n unfolding unfold by auto
    qed
  qed
qed

text \<open>
  C10. \<^verbatim>\<open>update_projectiles\<close> removes projectiles from the list it iterates over. In every
  pass in which the projectile at index \<open>i\<close> of the list (as it is when the pass starts) is
  destroyed, whether for having passed the top bound or for having hit an asteroid, the
  projectile at index \<open>i + 1\<close> is not visited: no collision test is made on it, it is not
  destroyed, and it is in the list after the pass as it was before, so it has not moved.
  The projectiles are distinct objects, as they are in every frame of a game that started as a
  new game (\<open>distinct_projectiles_frames\<close> below).
\<close>

theorem destroyed_projectile_hides_next:
  assumes "distinct (map iid (projectiles g))" and "Suc i < length (projectiles g)"
    and "DestroyImage (iid (projectiles g ! i))
           \<in> set (new_effects g (update_projectiles rnd cp g))"
  shows "projectiles g ! Suc i \<in> set (projectiles (update_projectiles rnd cp g))
         \<and> (\<forall>e \<in> set (new_effects g (update_projectiles rnd cp g)).
              \<not> touches (iid (projectiles g ! Suc i)) e)"
  using assms unfolding update_projectiles_def
  by (intro update_projectiles_from_skips) simp_all

theorem destroyed_projectile_hides_next_witness:
  "distinct (map iid (projectiles top_game)) \<and> Suc 0 < length (projectiles top_game)
   \<and> DestroyImage (iid (projectiles top_game ! 0))
       \<in> set (new_effects top_game (update_projectiles quarter no_collision top_game))
   \<and> img_y (projectiles top_game ! Suc 0) \<le> 0
   \<and> projectiles top_game ! Suc 0
       \<in> set (projectiles (update_projectiles quarter no_collision top_game))
   \<and> new_effects top_game (update_projectiles quarter no_collision top_game)
     = [DestroyImage (iid (projectiles top_game ! 0))]"
proof -
  have h: "distinct (map iid (projectiles top_game))" "Suc 0 < length (projectiles top_game)"
    "DestroyImage (iid (projectiles top_game ! 0))
       \<in> set (new_effects top_game (update_projectiles quarter no_collision top_game))"
    by code_simp+
  have y: "img_y (projectiles top_game ! Suc 0) \<le> 0"
    "new_effects top_game (update_projectiles quarter no_collision top_game)
     = [DestroyImage (iid (projectiles top_game ! 0))]"
    by code_simp+
  from destroyed_projectile_hides_next [OF h] h y show ?thesis
    by simp
qed

section \<open>The number of projectiles in flight\<close>

lemma length_update_projectiles_from:
  "length (projectiles (update_projectiles_from rnd cp k g)) \<le> length (projectiles g)"
proof (induction rnd cp k g rule: update_projectiles_from.induct)
  case (1 rnd cp k g)
  show ?case
  proof (cases "k < length (projectiles g)")
    case True
    from "1.IH" [OF True] length_update_projectile [of rnd cp k g] True show ?thesis
      by (simp add: update_projectiles_from.simps [of rnd cp k g])
  next
    case False
    then show ?thesis
      by (simp add: update_projectiles_from.simps [of rnd cp k g])
  qed
qed

lemma projectiles_player_hurt [simp]: "projectiles (player_hurt a g) = projectiles g"
  by (simp add: player_hurt_def split: prod.splits)

lemma projectiles_check_player_collisions_loop [simp]:
  "projectiles (check_player_collisions_loop cp as g) = projectiles g"
  by (induction as arbitrary: g) (simp_all add: Let_def)

lemma projectiles_axes [simp]:
  "projectiles (sprite_controller_move g) = projectiles g"
  "projectiles (move_vertical g) = projectiles g"
  "projectiles (move_horizontal g) = projectiles g"
  "maximum_projectiles (sprite_controller_move g) = maximum_projectiles g"
  "maximum_projectiles (move_vertical g) = maximum_projectiles g"
  "maximum_projectiles (move_horizontal g) = maximum_projectiles g"
  "firing (sprite_controller_move g) = firing g"
  "firing (move_vertical g) = firing g"
  "firing (move_horizontal g) = firing g"
  by (simp_all add: sprite_controller_move_def move_vertical_def move_horizontal_def
                    set_ship_x_def set_ship_y_def Let_def split: option.splits)

text \<open>
  What holds of the cap in general: a call of \<^verbatim>\<open>move\<close> at or above the cap adds no
  projectile, and a call below the cap adds at most two, so that the number of projectiles in
  flight never exceeds the cap by more than one.
\<close>

lemma move_adds_at_most_two:
  "length (projectiles (move rnd cp g))
     \<le> (if firing g \<and> int (length (projectiles g)) < maximum_projectiles g
        then length (projectiles g) + 2 else length (projectiles g))"
proof -
  define g4 where "g4 = move_horizontal (move_vertical
              ((sprite_controller_move g)
                 \<lparr>current_distance := current_distance (sprite_controller_move g)
                    + speed (sprite_controller_move g)\<rparr>))"
  define g5 where "g5 = (if firing g4 \<and> int (length (projectiles g4)) < maximum_projectiles g4
                         then fire_projectile g4 else g4)"
  have f: "firing g4 = firing g" and p: "projectiles g4 = projectiles g"
    and m: "maximum_projectiles g4 = maximum_projectiles g"
    by (simp_all add: g4_def)
  have "move rnd cp g = check_player_collisions cp (update_projectiles rnd cp g5)"
    unfolding move_def Let_def g5_def g4_def ..
  then have "projectiles (move rnd cp g) = projectiles (update_projectiles_from rnd cp 0 g5)"
    by (simp add: check_player_collisions_def update_projectiles_def)
  then have l: "length (projectiles (move rnd cp g)) \<le> length (projectiles g5)"
    by (simp add: length_update_projectiles_from)
  have "length (projectiles (fire_projectile g4)) = length (projectiles g4) + 2"
    by (simp add: fire_projectile_def Let_def)
  with l f p m show ?thesis
    by (simp add: g5_def split: if_splits)
qed

lemma projectiles_at_most_cap_plus_one:
  assumes "int (length (projectiles g)) \<le> maximum_projectiles g + 1"
  shows "int (length (projectiles (move rnd cp g))) \<le> maximum_projectiles g + 1"
  using assms move_adds_at_most_two [of rnd cp g] by (simp split: if_splits)

section \<open>Destroying the projectiles\<close>

text \<open>
  \<^verbatim>\<open>destroy_projectiles\<close> destroys every other projectile: of \<open>n\<close> distinct projectiles,
  \<open>n div 2\<close> are left in the list.
\<close>

lemma half_step:
  fixes n k :: nat
  assumes "k < n"
  shows "n - 1 - (n - 1 - Suc k + 1) div 2 = n - (n - k + 1) div 2"
proof -
  from assms obtain m where n: "n = Suc (k + m)"
    by (metis less_imp_Suc_add)
  show ?thesis
    unfolding n by (cases m) simp_all
qed

lemma length_destroy_projectiles_from:
  assumes "distinct (projectiles g)"
  shows "length (projectiles (destroy_projectiles_from k g))
         = length (projectiles g) - (length (projectiles g) - k + 1) div 2"
  using assms
proof (induction k g rule: destroy_projectiles_from.induct)
  case (1 k g)
  let ?ps = "projectiles g"
  let ?g1 = "destroy_projectile (?ps ! k) g"
  show ?case
  proof (cases "k < length ?ps")
    case True
    with "1.prems" have ps1: "projectiles ?g1 = take k ?ps @ drop (Suc k) ?ps"
      by (simp add: destroy_projectile_def remove1_nth)
    from "1.prems" have "distinct (take k ?ps @ drop (Suc k) ?ps)"
      by (rule distinct_take_drop)
    then have d1: "distinct (projectiles ?g1)"
      by (simp only: ps1)
    from True have len1: "length (projectiles ?g1) = length ?ps - 1"
      unfolding ps1 by simp
    have "length (projectiles (destroy_projectiles_from (Suc k) ?g1))
          = length ?ps - 1 - (length ?ps - 1 - Suc k + 1) div 2"
      using "1.IH" [OF True d1] by (simp only: len1)
    also from True have "\<dots> = length ?ps - (length ?ps - k + 1) div 2"
      by (rule half_step)
    finally show ?thesis
      using True by (simp add: destroy_projectiles_from.simps [of k g])
  next
    case False
    then show ?thesis
      by (simp add: destroy_projectiles_from.simps [of k g])
  qed
qed

lemma destroy_projectiles_leaves_half:
  assumes "distinct (projectiles g)"
  shows "length (projectiles (destroy_projectiles g)) = length (projectiles g) div 2"
proof -
  have "n - (n - 0 + 1) div 2 = n div 2" for n :: nat
    by simp
  with length_destroy_projectiles_from [OF assms, of 0] show ?thesis
    unfolding destroy_projectiles_def by simp
qed

section \<open>The projectiles in flight are distinct objects\<close>

lemma next_iid_parent_calls [simp]: "next_iid (parent_calls evs g) = next_iid g"
proof (induction evs arbitrary: g)
  case Nil
  show ?case by simp
next
  case (Cons e evs)
  have "next_iid (parent_call e g) = next_iid g"
    by (cases e) simp_all
  with Cons show ?case
    by simp
qed

lemma next_iid_asteroid_hurt [simp]: "next_iid (asteroid_hurt a g) = next_iid g"
  by (simp add: asteroid_hurt_def split: prod.splits)

lemma next_iid_player_hurt [simp]: "next_iid (player_hurt a g) = next_iid g"
  by (simp add: player_hurt_def split: prod.splits)

lemma next_iid_check_projectile_collisions_loop [simp]:
  "next_iid (snd (check_projectile_collisions_loop cp p as g)) = next_iid g"
  by (induction as arbitrary: g) (simp_all add: Let_def)

lemma next_iid_check_player_collisions_loop [simp]:
  "next_iid (check_player_collisions_loop cp as g) = next_iid g"
  by (induction as arbitrary: g) (simp_all add: Let_def)

lemma next_iid_update_projectile [simp]:
  "next_iid (update_projectile rnd cp k g) = next_iid g"
proof -
  obtain hit g1 where c: "check_projectile_collisions cp (projectiles g ! k) g = (hit, g1)"
    by (cases "check_projectile_collisions cp (projectiles g ! k) g")
  have "next_iid (snd (check_projectile_collisions cp (projectiles g ! k) g)) = next_iid g"
    by (simp add: check_projectile_collisions_def)
  with c have "next_iid g1 = next_iid g"
    by simp
  with c show ?thesis
    by (simp add: update_projectile_def destroy_projectile_def Let_def)
qed

lemma next_iid_axes [simp]:
  "next_iid (sprite_controller_move g) = next_iid g"
  "next_iid (move_vertical g) = next_iid g"
  "next_iid (move_horizontal g) = next_iid g"
  by (simp_all add: sprite_controller_move_def move_vertical_def move_horizontal_def
                    set_ship_x_def set_ship_y_def Let_def split: option.splits)

lemma fresh_update_projectile:
  assumes "fresh g" and "k < length (projectiles g)"
  shows "fresh (update_projectile rnd cp k g)"
proof -
  from assms(1) have d: "distinct (map iid (projectiles g))"
    and b: "list_all (\<lambda>p. iid p < next_iid g) (projectiles g)"
    by (simp_all add: fresh_def)
  from d assms(2) have "distinct (map iid (projectiles (update_projectile rnd cp k g)))"
    by (rule distinct_iid_update_projectile)
  moreover from d assms(2)
  have "list_all (\<lambda>p. iid p < next_iid g) (projectiles (update_projectile rnd cp k g))"
  proof (cases rule: update_projectile_cases [where rnd = rnd and cp = cp])
    case (destroyed evs)
    from b have "list_all (\<lambda>p. iid p < next_iid g) (take k (projectiles g))"
      and "list_all (\<lambda>p. iid p < next_iid g) (drop (Suc k) (projectiles g))"
      by (auto simp: list_all_iff dest: in_set_takeD in_set_dropD)
    with destroyed(3) show ?thesis
      by simp
  next
    case (kept evs p')
    from b assms(2) have "iid (projectiles g ! k) < next_iid g"
      by (simp add: list_all_length)
    with kept(3) b have "list_all (\<lambda>p. iid p < next_iid g) ((projectiles g)[k := p'])"
      by (auto simp: list_all_iff dest!: set_update_subset_insert [THEN subsetD])
    with kept(4) show ?thesis
      by simp
  qed
  ultimately show ?thesis
    by (simp add: fresh_def)
qed

lemma fresh_update_projectiles_from:
  "fresh g \<Longrightarrow> fresh (update_projectiles_from rnd cp k g)"
proof (induction rnd cp k g rule: update_projectiles_from.induct)
  case (1 rnd cp k g)
  show ?case
  proof (cases "k < length (projectiles g)")
    case True
    with "1.prems" have "fresh (update_projectile rnd cp k g)"
      by (rule fresh_update_projectile)
    with "1.IH" [OF True] True show ?thesis
      by (simp add: update_projectiles_from.simps [of rnd cp k g])
  next
    case False
    with "1.prems" show ?thesis
      by (simp add: update_projectiles_from.simps [of rnd cp k g])
  qed
qed

lemma fresh_fire_projectile: "fresh g \<Longrightarrow> fresh (fire_projectile g)"
  by (auto simp: fresh_def fire_projectile_def Let_def list_all_iff)

lemma fresh_move:
  assumes "fresh g"
  shows "fresh (move rnd cp g)"
proof -
  define g4 where "g4 = move_horizontal (move_vertical
              ((sprite_controller_move g)
                 \<lparr>current_distance := current_distance (sprite_controller_move g)
                    + speed (sprite_controller_move g)\<rparr>))"
  define g5 where "g5 = (if firing g4 \<and> int (length (projectiles g4)) < maximum_projectiles g4
                         then fire_projectile g4 else g4)"
  from assms have "fresh g4"
    by (simp add: fresh_def g4_def)
  then have "fresh g5"
    by (simp add: g5_def fresh_fire_projectile)
  then have "fresh (update_projectiles rnd cp g5)"
    unfolding update_projectiles_def by (rule fresh_update_projectiles_from)
  then have "fresh (check_player_collisions cp (update_projectiles rnd cp g5))"
    by (simp add: fresh_def check_player_collisions_def)
  moreover have "move rnd cp g = check_player_collisions cp (update_projectiles rnd cp g5)"
    unfolding move_def Let_def g5_def g4_def ..
  ultimately show ?thesis
    by simp
qed

lemma fresh_handle_all: "fresh g \<Longrightarrow> fresh (handle_all ks g)"
proof (induction ks arbitrary: g)
  case Nil
  then show ?case by simp
next
  case (Cons k ks)
  obtain c release where k: "k = (c, release)"
    by (cases k)
  from Cons.prems have "fresh (handle k g)"
    unfolding k
    by (cases c)
       (simp_all add: fresh_def move_forward_def move_backward_def move_right_def
                      move_left_def fire_def)
  then show ?case
    using Cons.IH by simp
qed

text \<open>
  In every game that started as a new game, whatever the frames since, the projectiles in
  flight are distinct objects.
\<close>

lemma fresh_frames: "fresh g \<Longrightarrow> fresh (frames rnd fs g)"
proof (induction fs arbitrary: g)
  case Nil
  then show ?case by simp
next
  case (Cons f fs)
  from Cons.prems have "fresh (frame rnd f g)"
    unfolding frame_def by (intro fresh_move fresh_handle_all)
  then show ?case
    using Cons.IH by simp
qed

lemma distinct_projectiles_frames:
  "distinct (map iid (projectiles (frames rnd fs (new_game ship as dw dh i bw bh))))"
proof -
  have "fresh (new_game ship as dw dh i bw bh)"
    by (simp add: fresh_def new_game_def)
  then have "fresh (frames rnd fs (new_game ship as dw dh i bw bh))"
    by (rule fresh_frames)
  then show ?thesis
    by (simp add: fresh_def)
qed

end
